theory Spec2Isabelle
  imports Complex_Main
begin

section \<open>Inventory model of \<open>nannies/vmfs_balance.py\<close>\<close>

text \<open>
  The balancer works on Python objects: byte counts are unbounded integers (\<open>int\<close>),
  percentages are Python floats, carried as rationals (\<open>rat\<close>). The percentages of the
  datastores are kept exact: their rounding is not modelled. The statistics of the
  aggregates and the autopilot gate of the pool-level pass are computed in binary64, as
  the program computes them (\<open>float64\<close> below), because the decision of the gate can turn
  on the last bit of the average. An uncaught Python exception ends the process
  (\<open>check_loop\<close> has no handler), so a raise is a value of type \<open>error\<close>.
\<close>

subsection \<open>Python floats\<close>

text \<open>
  A Python float is an IEEE 754 binary64 number: a rational \<open>m * 2 ^ e\<close> with a significand
  \<open>m\<close> of at most 53 bits. Every arithmetic operation on floats, the conversion of an
  \<open>int\<close> to a float and the true division \<open>int / int\<close> return the exact result rounded
  to the nearest such number, ties to the even significand. \<open>float64\<close> is this rounding.
  The range of the exponent is not bounded here: overflow and subnormal numbers, which
  need magnitudes above \<open>2 ^ 1024\<close> or below \<open>2 ^ - 1022\<close>, are not modelled.
\<close>

text \<open>\<open>int.bit_length\<close> of a positive integer.\<close>

function bit_length :: "int \<Rightarrow> int" where
  "bit_length n = (if n \<le> 0 then 0 else 1 + bit_length (n div 2))"
  by pat_completeness auto
termination
  by (relation "measure nat") auto

text \<open>For \<open>0 < x\<close>, the exponent \<open>k\<close> with \<open>2 ^ k \<le> x < 2 ^ (k + 1)\<close>.\<close>

definition ilog2 :: "rat \<Rightarrow> int" where
  "ilog2 x =
     (if 1 \<le> x then bit_length \<lfloor>x\<rfloor> - 1 else - bit_length (\<lceil>1 / x\<rceil> - 1))"

definition scale2 :: "rat \<Rightarrow> int \<Rightarrow> rat" where
  "scale2 x e = (if 0 \<le> e then x * 2 ^ nat e else x / 2 ^ nat (- e))"

definition round_half_even :: "rat \<Rightarrow> int" where
  "round_half_even s =
     (let m = \<lfloor>s\<rfloor>; r = s - of_int m
      in if r < 1 / 2 then m else if 1 / 2 < r then m + 1 else if even m then m else m + 1)"

definition float64 :: "rat \<Rightarrow> rat" where
  "float64 x =
     (if x = 0 then 0
      else let k = ilog2 \<bar>x\<bar>;
               m = round_half_even (scale2 \<bar>x\<bar> (52 - k))
           in sgn x * scale2 (of_int m) (k - 52))"

datatype error = ZeroDivisionError | IndexError | ValueError | AttributeError

type_synonym handle = nat

datatype device = VirtualDisk int | VirtualEthernetCard | OtherDevice

record VM =
  vm_name :: string
  vm_handle :: handle
  memoryMB :: int
  numCPU :: int
  powerState :: string
  hw_device :: "device list"

definition is_VirtualDisk :: "device \<Rightarrow> bool" where
  "is_VirtualDisk dev = (case dev of VirtualDisk c \<Rightarrow> True | _ \<Rightarrow> False)"

definition is_shadow_vm :: "VM \<Rightarrow> bool" where
  "is_shadow_vm vm =
     (if memoryMB vm = 128 \<and> numCPU vm = 1 \<and> powerState vm = ''poweredOff'' \<and>
         \<not> list_ex (\<lambda>dev. dev = VirtualEthernetCard) (hw_device vm)
      then (let number_of_disks = length (filter is_VirtualDisk (hw_device vm))
            in if number_of_disks = 0 then False
               else if number_of_disks > 1 then False
               else True)
      else False)"

definition get_disksizes :: "VM \<Rightarrow> int list" where
  "get_disksizes vm =
     concat (map (\<lambda>dev. case dev of VirtualDisk c \<Rightarrow> [c] | _ \<Rightarrow> []) (hw_device vm))"

definition get_total_disksize :: "VM \<Rightarrow> int" where
  "get_total_disksize vm = sum_list (get_disksizes vm)"

text \<open>The raw property bag of one datastore, as \<open>DataStores.get_datastores_dict\<close> returns it.\<close>

record ds_element =
  el_name :: string
  el_freeSpace :: int
  el_capacity :: int
  el_vm :: "handle list"
  el_obj :: handle

record DS =
  ds_name :: string
  freespace :: int
  capacity :: int
  used :: int
  usage :: rat
  vm_handles :: "handle list"
  ds_handle :: handle

text \<open>\<open>DS.__init__\<close>: the division raises for a zero capacity.\<close>

definition DS_init :: "ds_element \<Rightarrow> error + DS" where
  "DS_init e =
     (if el_capacity e = 0 then Inl ZeroDivisionError
      else Inr \<lparr> ds_name = el_name e,
                 freespace = el_freeSpace e,
                 capacity = el_capacity e,
                 used = el_capacity e - el_freeSpace e,
                 usage = (1 - of_int (el_freeSpace e) / of_int (el_capacity e)) * 100,
                 vm_handles = el_vm e,
                 ds_handle = el_obj e \<rparr>)"

definition is_below_usage :: "DS \<Rightarrow> rat \<Rightarrow> bool" where
  "is_below_usage ds u = (if usage ds < u then True else False)"

definition is_above_usage :: "DS \<Rightarrow> rat \<Rightarrow> bool" where
  "is_above_usage ds u = (if usage ds > u then True else False)"

definition is_below_freespace :: "DS \<Rightarrow> int \<Rightarrow> bool" where
  "is_below_freespace ds fs = (if freespace ds < fs * 1024 ^ 3 then True else False)"

text \<open>
  \<open>DS.add_shadow_vm\<close> and \<open>DS.remove_shadow_vm\<close>. \<open>list.remove\<close> raises ValueError when
  the handle is absent, before anything is changed, and removes the first occurrence.
\<close>

definition add_shadow_vm :: "DS \<Rightarrow> VM \<Rightarrow> error + DS" where
  "add_shadow_vm ds vm =
     (let fs = freespace ds - get_total_disksize vm;
          hs = vm_handles ds @ [vm_handle vm]
      in if capacity ds = 0 then Inl ZeroDivisionError
         else Inr (ds\<lparr> freespace := fs, vm_handles := hs,
                        usage := (1 - of_int fs / of_int (capacity ds)) * 100 \<rparr>))"

definition remove_shadow_vm :: "DS \<Rightarrow> VM \<Rightarrow> error + DS" where
  "remove_shadow_vm ds vm =
     (if vm_handle vm \<notin> set (vm_handles ds) then Inl ValueError
      else let hs = remove1 (vm_handle vm) (vm_handles ds);
               fs = freespace ds + get_total_disksize vm
           in if capacity ds = 0 then Inl ZeroDivisionError
              else Inr (ds\<lparr> freespace := fs, vm_handles := hs,
                             usage := (1 - of_int fs / of_int (capacity ds)) * 100 \<rparr>))"

subsection \<open>The object store\<close>

text \<open>
  Datastore objects are shared: \<open>ds_info.elements\<close>, the fixed source of a pool-level pass
  and the source and target of a move all refer to the same objects, and a move changes
  them in place. A reference is an address, the store maps addresses to objects.
\<close>

type_synonym ref = nat
type_synonym heap = "ref \<Rightarrow> DS"

text \<open>The decision record that \<open>move_shadow_vm_from_ds_to_ds\<close> writes to the log.\<close>

record move =
  mv_vm :: string
  mv_size :: int
  mv_source :: string
  mv_target :: string
  source_usage_before :: rat
  source_usage_after :: rat
  target_usage_before :: rat
  target_usage_after :: rat

definition move_shadow_vm_from_ds_to_ds :: "heap \<Rightarrow> ref \<Rightarrow> ref \<Rightarrow> VM \<Rightarrow> error + (heap \<times> move)" where
  "move_shadow_vm_from_ds_to_ds h ds1 ds2 vm =
     (case remove_shadow_vm (h ds1) vm of
        Inl e \<Rightarrow> Inl e
      | Inr d1 \<Rightarrow>
          (let h1 = h(ds1 := d1) in
           case add_shadow_vm (h1 ds2) vm of
             Inl e \<Rightarrow> Inl e
           | Inr d2 \<Rightarrow>
               (let h2 = h1(ds2 := d2) in
                Inr (h2, \<lparr> mv_vm = vm_name vm,
                           mv_size = get_total_disksize vm,
                           mv_source = ds_name (h2 ds1),
                           mv_target = ds_name (h2 ds2),
                           source_usage_before = usage (h ds1),
                           source_usage_after = usage (h1 ds1),
                           target_usage_before = usage (h1 ds2),
                           target_usage_after = usage (h2 ds2) \<rparr>))))"

text \<open>\<open>DataStores\<close>: the list \<open>elements\<close> of references, and the functions over it.\<close>

fun DataStores_alloc :: "heap \<Rightarrow> ref \<Rightarrow> ds_element list \<Rightarrow> error + (heap \<times> ref list)" where
  "DataStores_alloc h n [] = Inr (h, [])"
| "DataStores_alloc h n (e # es) =
     (if el_capacity e = 0 then DataStores_alloc h n es
      else case DS_init e of
             Inl err \<Rightarrow> Inl err
           | Inr d \<Rightarrow> (case DataStores_alloc (h(n := d)) (Suc n) es of
                         Inl err \<Rightarrow> Inl err
                       | Inr (h', rs) \<Rightarrow> Inr (h', n # rs)))"

definition get_overall_capacity :: "heap \<Rightarrow> ref list \<Rightarrow> int" where
  "get_overall_capacity h elements = sum_list (map (\<lambda>r. capacity (h r)) elements)"

definition get_overall_freespace :: "heap \<Rightarrow> ref list \<Rightarrow> int" where
  "get_overall_freespace h elements = sum_list (map (\<lambda>r. freespace (h r)) elements)"

definition get_overall_average_usage :: "heap \<Rightarrow> ref list \<Rightarrow> error + rat" where
  "get_overall_average_usage h elements =
     (if get_overall_capacity h elements = 0 then Inl ZeroDivisionError
      else Inr ((1 - of_int (get_overall_freespace h elements)
                      / of_int (get_overall_capacity h elements)) * 100))"

fun get_by_name :: "heap \<Rightarrow> ref list \<Rightarrow> string \<Rightarrow> ref option" where
  "get_by_name h [] n = None"
| "get_by_name h (r # rs) n = (if ds_name (h r) = n then Some r else get_by_name h rs n)"


text \<open>
  The regular expressions. \<open>.\<close> matches any character but a newline; \<open>$\<close> matches at the
  end and before a newline that ends the string; \<open>re.match\<close> anchors at the start only.
\<close>

definition re_dotstar_end :: "string \<Rightarrow> bool" where
  "re_dotstar_end s =
     (CHR 0x0A \<notin> set s \<or> (s \<noteq> [] \<and> last s = CHR 0x0A \<and> CHR 0x0A \<notin> set (butlast s)))"

text \<open>\<open>.*kw\<close> at the start of \<open>s\<close>, the rest of \<open>s\<close> accepted by \<open>rest\<close>.\<close>

fun re_dotstar_kw :: "string \<Rightarrow> (string \<Rightarrow> bool) \<Rightarrow> string \<Rightarrow> bool" where
  "re_dotstar_kw kw rest [] = (kw = [] \<and> rest [])"
| "re_dotstar_kw kw rest (c # cs) =
     ((take (length kw) (c # cs) = kw \<and> rest (drop (length kw) (c # cs)))
      \<or> (c \<noteq> CHR 0x0A \<and> re_dotstar_kw kw rest cs))"

text \<open>\<open>^.*_hdd_.*$\<close> or \<open>^.*_ssd_.*$\<close>, chosen by the \<open>--hdd\<close> switch.\<close>

definition lun_name_re_match :: "bool \<Rightarrow> string \<Rightarrow> bool" where
  "lun_name_re_match hdd_switch n =
     re_dotstar_kw (if hdd_switch then ''_hdd_'' else ''_ssd_'') re_dotstar_end n"

text \<open>\<open>^(?:vmfs_vc.*_ssd_).*\<close>\<close>

definition ds_name_regex_match :: "string \<Rightarrow> bool" where
  "ds_name_regex_match n =
     (take 7 n = ''vmfs_vc'' \<and> re_dotstar_kw ''_ssd_'' (\<lambda>r. True) (drop 7 n))"

text \<open>
  \<open>DataStores.vmfs_ds\<close> filters \<open>elements\<close> in place; \<open>DataStores.sort_by_usage\<close> sorts it
  in place, descending by \<open>usage * ds_weight.get(name, 1)\<close>. Python's sort is stable, also
  with \<open>reverse=True\<close>. A missing or empty weight dictionary is \<open>Map.empty\<close>. The key is
  the exact product of the two rationals; the program rounds it to binary64.
\<close>

definition vmfs_ds :: "heap \<Rightarrow> ref list \<Rightarrow> string list \<Rightarrow> ref list" where
  "vmfs_ds h elements ds_denylist =
     filter (\<lambda>r. ds_name_regex_match (ds_name (h r)) \<and>
                 \<not> (ds_denylist \<noteq> [] \<and> ds_name (h r) \<in> set ds_denylist)) elements"

definition weight_get :: "(string \<rightharpoonup> rat) \<Rightarrow> string \<Rightarrow> rat" where
  "weight_get ds_weight n = (case ds_weight n of None \<Rightarrow> 1 | Some w \<Rightarrow> w)"

definition sort_by_usage :: "heap \<Rightarrow> (string \<rightharpoonup> rat) \<Rightarrow> ref list \<Rightarrow> ref list" where
  "sort_by_usage h ds_weight elements =
     sort_key (\<lambda>r. - (usage (h r) * weight_get ds_weight (ds_name (h r)))) elements"

subsection \<open>The storage controller view\<close>

record NALun =
  lun_name :: string
  lun_type :: string
  lun_fvol :: string
  lun_used :: int

record NAAggr =
  aggr_name :: string
  aggr_usage :: int
  aggr_capacity :: int
  luns :: "NALun list"

record NA =
  na_host :: string
  na_aggr_elements :: "NAAggr list"

subsection \<open>\<open>VMs\<close>\<close>

definition get_shadow_vms :: "VM list \<Rightarrow> handle list \<Rightarrow> VM list" where
  "get_shadow_vms vm_elements handles =
     filter (\<lambda>vm. vm_handle vm \<in> set handles \<and> is_shadow_vm vm) vm_elements"

definition sort_vms_by_total_disksize :: "VM list \<Rightarrow> VM list" where
  "sort_vms_by_total_disksize vms = sort_key (\<lambda>vm. - get_total_disksize vm) vms"

section \<open>Join and weighting: \<open>get_aggr_and_ds_stats\<close>\<close>

text \<open>
  The inner loop over \<open>aggr.luns\<close>: the accumulator is
  \<open>(ds_total_capacity, ds_total_used, ds_weight)\<close>. Both divisions of the weight raise
  ZeroDivisionError on a zero divisor.
\<close>

fun stats_luns ::
  "heap \<Rightarrow> ref list \<Rightarrow> NAAggr \<Rightarrow> NALun list \<Rightarrow> int \<times> int \<times> (string \<rightharpoonup> rat)
     \<Rightarrow> error + (int \<times> int \<times> (string \<rightharpoonup> rat))" where
  "stats_luns h elements aggr [] acc = Inr acc"
| "stats_luns h elements aggr (lun # ls) (ds_total_capacity, ds_total_used, ds_weight) =
     (case get_by_name h elements (lun_name lun) of
        None \<Rightarrow> stats_luns h elements aggr ls (ds_total_capacity, ds_total_used, ds_weight)
      | Some r \<Rightarrow>
          if capacity (h r) = 0 then Inl ZeroDivisionError
          else if of_int (used (h r)) / of_int (capacity (h r)) * (100::rat) = 0
          then Inl ZeroDivisionError
          else stats_luns h elements aggr ls
                 (ds_total_capacity + capacity (h r),
                  ds_total_used + used (h r),
                  ds_weight(lun_name lun \<mapsto>
                    of_int (aggr_usage aggr)
                      / (of_int (used (h r)) / of_int (capacity (h r)) * 100))))"

text \<open>The loop over the aggregates of one controller; the log line after the inner loop
  divides by \<open>ds_total_capacity\<close>.\<close>

fun stats_aggrs ::
  "heap \<Rightarrow> ref list \<Rightarrow> NAAggr list \<Rightarrow> (string \<rightharpoonup> rat) \<Rightarrow> error + (string \<rightharpoonup> rat)" where
  "stats_aggrs h elements [] ds_weight = Inr ds_weight"
| "stats_aggrs h elements (aggr # as) ds_weight =
     (case stats_luns h elements aggr (luns aggr) (0, 0, ds_weight) of
        Inl e \<Rightarrow> Inl e
      | Inr (ds_total_capacity, ds_total_used, ds_weight') \<Rightarrow>
          if ds_total_capacity = 0 then Inl ZeroDivisionError
          else stats_aggrs h elements as ds_weight')"

fun stats_nas ::
  "heap \<Rightarrow> ref list \<Rightarrow> NA list \<Rightarrow> (string \<rightharpoonup> rat) \<Rightarrow> error + (string \<rightharpoonup> rat)" where
  "stats_nas h elements [] ds_weight = Inr ds_weight"
| "stats_nas h elements (na # nas) ds_weight =
     (case stats_aggrs h elements (na_aggr_elements na) ds_weight of
        Inl e \<Rightarrow> Inl e
      | Inr ds_weight' \<Rightarrow> stats_nas h elements nas ds_weight')"

definition get_aggr_and_ds_stats :: "NA list \<Rightarrow> heap \<Rightarrow> ref list \<Rightarrow> error + (string \<rightharpoonup> rat)" where
  "get_aggr_and_ds_stats na_info h elements = stats_nas h elements na_info Map.empty"

section \<open>\<open>get_max_usage_aggr\<close>\<close>

text \<open>
  The accumulation of lines 785 and 786: \<open>aggr.usage / 100\<close> is a true division of
  integers, the product converts \<open>aggr.capacity\<close> to a float, and \<open>+=\<close> adds floats (the
  first addition, to the integer \<open>0\<close>, returns the float itself).
\<close>

definition aggr_total_used :: "NAAggr list \<Rightarrow> rat" where
  "aggr_total_used all_aggr_list =
     foldl (\<lambda>total_used aggr.
              float64 (total_used
                       + float64 (float64 (of_int (aggr_usage aggr) / 100)
                                  * float64 (of_int (aggr_capacity aggr)))))
           0 all_aggr_list"

definition get_max_usage_aggr :: "NA list \<Rightarrow> error + (NAAggr \<times> rat)" where
  "get_max_usage_aggr na_info =
     (let all_aggr_list = concat (map na_aggr_elements na_info);
          total_capacity = sum_list (map aggr_capacity all_aggr_list);
          total_used = aggr_total_used all_aggr_list;
          sorted_aggr_list = sort_key aggr_usage all_aggr_list
      in if sorted_aggr_list = [] then Inl IndexError
         else if total_capacity = 0 then Inl ZeroDivisionError
         else Inr (last sorted_aggr_list,
                   float64 (float64 (total_used / float64 (of_int total_capacity)) * 100)))"

section \<open>The balancing passes\<close>

text \<open>The command line arguments that the passes read. \<open>ds_denylist\<close> is \<open>None\<close> when the
  option is absent; it is a list object that both passes may extend in place.\<close>

record args =
  min_usage :: int
  max_usage :: int
  min_freespace :: int
  min_max_difference :: int
  autopilot :: bool
  autopilot_range :: int
  max_move_vms :: int
  ds_denylist :: "string list option"
  aggr_volume_min_size :: int
  aggr_volume_max_size :: int
  flexvol_volume_min_size :: int
  flexvol_volume_max_size :: int
  hdd :: bool

text \<open>What a pass works on: the object store, \<open>ds_info.elements\<close>, and the moves logged so far.\<close>

record state =
  st_heap :: heap
  st_elements :: "ref list"
  st_moves :: "move list"

text \<open>How a pass ends: an uncaught exception, \<open>return False\<close> (no aggregate balancing
  required), \<open>return\<close> after the warning "no vmfs ds in this vcenter", or one of the
  \<open>break\<close>s of the balancing loop.\<close>

datatype exit_reason =
    Raised error
  | ReturnedFalse
  | NoVmfsDs
  | MaxMovesReached
  | EnoughSpaceFreed
  | SourceGoodEnough
  | NoMoreShadowVms

text \<open>Lines 880 to 884 and 988 to 992: the extended deny list is the configured list object
  itself when that is non-empty, a fresh list otherwise; \<open>extend\<close> changes it in place.\<close>

definition extend_ds_denylist :: "args \<Rightarrow> NAAggr \<Rightarrow> string list \<times> args" where
  "extend_ds_denylist a max_usage_aggr =
     (let names = map lun_name (luns max_usage_aggr) in
      case ds_denylist a of
        None \<Rightarrow> (names, a)
      | Some l \<Rightarrow> if l = [] then (names, a)
                  else (l @ names, a\<lparr> ds_denylist := Some (l @ names) \<rparr>))"

subsection \<open>Pool level: \<open>vmfs_aggr_balancing\<close>\<close>

definition aggr_candidate :: "args \<Rightarrow> int \<Rightarrow> VM \<Rightarrow> bool" where
  "aggr_candidate a least_used_ds_free_space vm =
     (let vm_disksize = (of_int (get_total_disksize vm) / 1024 ^ 3 :: rat)
      in of_int (aggr_volume_min_size a) \<le> vm_disksize \<and>
         vm_disksize \<le> min (of_int least_used_ds_free_space / 1024 ^ 3)
                            (of_int (aggr_volume_max_size a)))"

text \<open>One run of the loop body after the three stop checks (lines 912 to 943): \<open>Inl\<close> is a
  \<open>break\<close> or a raise, \<open>Inr\<close> the state after the move together with the unit moved.\<close>

definition aggr_balancing_step ::
  "(string \<rightharpoonup> rat) \<Rightarrow> VM list \<Rightarrow> args \<Rightarrow> ref \<Rightarrow> state
     \<Rightarrow> (exit_reason \<times> state) + (state \<times> VM)" where
  "aggr_balancing_step ds_weight vm_info a src st =
     (let els = sort_by_usage (st_heap st) ds_weight (st_elements st);
          st1 = st\<lparr> st_elements := els \<rparr>
      in if els = [] then Inl (Raised IndexError, st1)
         else
           (let least_used_ds = last els;
                least_used_ds_free_space =
                  freespace (st_heap st least_used_ds) - min_freespace a * 1024 ^ 3;
                cands = filter (aggr_candidate a least_used_ds_free_space)
                          (get_shadow_vms vm_info (vm_handles (st_heap st src)))
            in if cands = [] then Inl (NoMoreShadowVms, st1)
               else
                 (let largest = hd (sort_vms_by_total_disksize cands) in
                  case move_shadow_vm_from_ds_to_ds (st_heap st) src least_used_ds largest of
                    Inl e \<Rightarrow> Inl (Raised e, st1)
                  | Inr (h', m) \<Rightarrow>
                      Inr (\<lparr> st_heap = h',
                             st_elements = sort_by_usage h' Map.empty els,
                             st_moves = st_moves st @ [m] \<rparr>, largest))))"

function aggr_balancing_loop ::
  "(string \<rightharpoonup> rat) \<Rightarrow> VM list \<Rightarrow> args \<Rightarrow> rat \<Rightarrow> rat \<Rightarrow> ref \<Rightarrow> int \<Rightarrow> int \<Rightarrow> state
     \<Rightarrow> exit_reason \<times> state" where
  "aggr_balancing_loop ds_weight vm_info a size_to_free ds_overall_average_usage src
       moves_done moved_size st =
     (if moves_done > max_move_vms a then (MaxMovesReached, st)
      else if of_int moved_size > size_to_free then (EnoughSpaceFreed, st)
      else if usage (st_heap st src) < ds_overall_average_usage - 4 * of_int (autopilot_range a)
      then (SourceGoodEnough, st)
      else
        (case aggr_balancing_step ds_weight vm_info a src st of
           Inl stop \<Rightarrow> stop
         | Inr (st', largest) \<Rightarrow>
             aggr_balancing_loop ds_weight vm_info a size_to_free ds_overall_average_usage src
               (moves_done + 1) (moved_size + get_total_disksize largest) st'))"
  by pat_completeness auto
termination
  by (relation "measure (\<lambda>(w, v, a, sz, avg, src, moves_done, moved_size, st).
                   nat (max_move_vms a + 1 - moves_done))") auto

text \<open>The search for the source datastore (lines 831 to 845). \<open>get_by_name\<close> returns \<open>None\<close>
  for a LUN without a datastore, and the sort key \<open>ds.usage\<close> raises AttributeError on it.\<close>

definition balancing_source_ds :: "heap \<Rightarrow> ref list \<Rightarrow> args \<Rightarrow> NAAggr \<Rightarrow> error + ref" where
  "balancing_source_ds h elements a max_usage_aggr =
     (let found = map (\<lambda>lun. get_by_name h elements (lun_name lun))
                    (filter (\<lambda>lun. lun_type lun = ''vmfs'' \<and>
                                    lun_name_re_match (hdd a) (lun_name lun))
                            (luns max_usage_aggr))
      in case those found of
           None \<Rightarrow> Inl AttributeError
         | Some rs \<Rightarrow>
             (let sorted_ds = sort_key (\<lambda>r. usage (h r)) rs
              in if sorted_ds = [] then Inl IndexError else Inr (last sorted_ds)))"

text \<open>The pass after the autopilot gate (lines 825 to 943). The loop that prints every
  datastore with its largest units (lines 862 to 877) only writes to the log and is left out.\<close>

definition aggr_balancing_required ::
  "(string \<rightharpoonup> rat) \<Rightarrow> NAAggr \<Rightarrow> rat \<Rightarrow> VM list \<Rightarrow> args \<Rightarrow> state
     \<Rightarrow> exit_reason \<times> args \<times> state" where
  "aggr_balancing_required ds_weight max_usage_aggr size_to_free vm_info a st =
     (case balancing_source_ds (st_heap st) (st_elements st) a max_usage_aggr of
        Inl e \<Rightarrow> (Raised e, a, st)
      | Inr most_used_ds_on_most_used_aggr \<Rightarrow>
          (let els1 = sort_by_usage (st_heap st) Map.empty
                        (vmfs_ds (st_heap st) (st_elements st) []);
               st1 = st\<lparr> st_elements := els1 \<rparr>
           in if length els1 = 0 then (NoVmfsDs, a, st1)
              else
                (case get_overall_average_usage (st_heap st) els1 of
                   Inl e \<Rightarrow> (Raised e, a, st1)
                 | Inr ds_overall_average_usage \<Rightarrow>
                     (let (extended_ds_denylist, a') = extend_ds_denylist a max_usage_aggr;
                          st2 = st\<lparr> st_elements := vmfs_ds (st_heap st) els1 extended_ds_denylist \<rparr>;
                          (ex, st') = aggr_balancing_loop ds_weight vm_info a' size_to_free
                                        ds_overall_average_usage most_used_ds_on_most_used_aggr
                                        0 0 st2
                      in (ex, a', st')))))"

text \<open>Lines 815 and 818, in floats: \<open>(max_usage_aggr.usage - avg_aggr_usage) *
  max_usage_aggr.capacity / 100\<close> and \<open>max_usage_aggr.usage < avg_aggr_usage +
  args.autopilot_range\<close>. Python compares an \<open>int\<close> with a float exactly.\<close>

definition size_to_free_on_max_used_aggr :: "NAAggr \<Rightarrow> rat \<Rightarrow> rat" where
  "size_to_free_on_max_used_aggr max_usage_aggr avg_aggr_usage =
     float64 (float64 (float64 (float64 (of_int (aggr_usage max_usage_aggr)) - avg_aggr_usage)
                       * float64 (of_int (aggr_capacity max_usage_aggr)))
              / 100)"

definition within_autopilot_range :: "args \<Rightarrow> NAAggr \<Rightarrow> rat \<Rightarrow> bool" where
  "within_autopilot_range a max_usage_aggr avg_aggr_usage =
     (of_int (aggr_usage max_usage_aggr)
        < float64 (avg_aggr_usage + float64 (of_int (autopilot_range a))))"

definition vmfs_aggr_balancing ::
  "NA list \<Rightarrow> VM list \<Rightarrow> args \<Rightarrow> state \<Rightarrow> exit_reason \<times> args \<times> state" where
  "vmfs_aggr_balancing na_info vm_info a st =
     (case get_aggr_and_ds_stats na_info (st_heap st) (st_elements st) of
        Inl e \<Rightarrow> (Raised e, a, st)
      | Inr ds_weight \<Rightarrow>
          (case get_max_usage_aggr na_info of
             Inl e \<Rightarrow> (Raised e, a, st)
           | Inr (max_usage_aggr, avg_aggr_usage) \<Rightarrow>
               if within_autopilot_range a max_usage_aggr avg_aggr_usage
               then (ReturnedFalse, a, st)
               else aggr_balancing_required ds_weight max_usage_aggr
                      (size_to_free_on_max_used_aggr max_usage_aggr avg_aggr_usage)
                      vm_info a st))"

subsection \<open>Datastore level: \<open>vmfs_ds_balancing\<close>\<close>

text \<open>The damped maximum size of a unit, in GiB (lines 1030 and 1031).\<close>

definition vm_maxdisksize :: "DS \<Rightarrow> DS \<Rightarrow> args \<Rightarrow> rat" where
  "vm_maxdisksize least_used_ds most_used_ds a =
     min (of_int (freespace least_used_ds - freespace most_used_ds) / (2 * 1024 ^ 3))
         (of_int (flexvol_volume_max_size a))"

definition ds_candidate :: "args \<Rightarrow> DS \<Rightarrow> DS \<Rightarrow> VM \<Rightarrow> bool" where
  "ds_candidate a least_used_ds most_used_ds vm =
     (let vm_disksize = (of_int (get_total_disksize vm) / 1024 ^ 3 :: rat)
      in of_int (flexvol_volume_min_size a) \<le> vm_disksize \<and>
         vm_disksize \<le> vm_maxdisksize least_used_ds most_used_ds a)"

text \<open>One run of the loop body after the stop check (lines 1014 to 1045).\<close>

definition ds_balancing_step ::
  "(string \<rightharpoonup> rat) \<Rightarrow> VM list \<Rightarrow> args \<Rightarrow> state \<Rightarrow> (exit_reason \<times> state) + state" where
  "ds_balancing_step ds_weight vm_info a st =
     (case st_elements st of
        [] \<Rightarrow> Inl (Raised IndexError, st)
      | most_used_ds # _ \<Rightarrow>
          (let els = sort_by_usage (st_heap st) ds_weight (st_elements st);
               st1 = st\<lparr> st_elements := els \<rparr>;
               least_used_ds = last els;
               cands = filter (ds_candidate a (st_heap st least_used_ds)
                                             (st_heap st most_used_ds))
                         (get_shadow_vms vm_info (vm_handles (st_heap st most_used_ds)))
           in if cands = [] then Inl (NoMoreShadowVms, st1)
              else
                (let largest = hd (sort_vms_by_total_disksize cands) in
                 case move_shadow_vm_from_ds_to_ds (st_heap st) most_used_ds
                        least_used_ds largest of
                   Inl e \<Rightarrow> Inl (Raised e, st1)
                 | Inr (h', m) \<Rightarrow>
                     Inr \<lparr> st_heap = h',
                           st_elements = sort_by_usage h' Map.empty els,
                           st_moves = st_moves st @ [m] \<rparr>)))"

function ds_balancing_loop ::
  "(string \<rightharpoonup> rat) \<Rightarrow> VM list \<Rightarrow> args \<Rightarrow> int \<Rightarrow> state \<Rightarrow> exit_reason \<times> state" where
  "ds_balancing_loop ds_weight vm_info a moves_done st =
     (if moves_done > max_move_vms a then (MaxMovesReached, st)
      else
        (case ds_balancing_step ds_weight vm_info a st of
           Inl stop \<Rightarrow> stop
         | Inr st' \<Rightarrow> ds_balancing_loop ds_weight vm_info a (moves_done + 1) st'))"
  by pat_completeness auto
termination
  by (relation "measure (\<lambda>(w, v, a, moves_done, st). nat (max_move_vms a + 1 - moves_done))")
     auto

text \<open>The corridor (lines 998 to 1003); the loop below never reads it.\<close>

definition usage_corridor :: "args \<Rightarrow> rat \<Rightarrow> rat \<times> rat" where
  "usage_corridor a ds_overall_average_usage =
     (if autopilot a
      then (ds_overall_average_usage - of_int (autopilot_range a),
            ds_overall_average_usage + of_int (autopilot_range a))
      else (of_int (min_usage a), of_int (max_usage a)))"

definition vmfs_ds_balancing ::
  "NA list \<Rightarrow> VM list \<Rightarrow> args \<Rightarrow> state \<Rightarrow> exit_reason \<times> args \<times> state" where
  "vmfs_ds_balancing na_info vm_info a st =
     (case get_aggr_and_ds_stats na_info (st_heap st) (st_elements st) of
        Inl e \<Rightarrow> (Raised e, a, st)
      | Inr ds_weight \<Rightarrow>
          (case get_max_usage_aggr na_info of
             Inl e \<Rightarrow> (Raised e, a, st)
           | Inr (max_usage_aggr, avg_aggr_usage) \<Rightarrow>
               (let els1 = sort_by_usage (st_heap st) Map.empty
                             (vmfs_ds (st_heap st) (st_elements st) []);
                    st1 = st\<lparr> st_elements := els1 \<rparr>
                in if length els1 = 0 then (NoVmfsDs, a, st1)
                   else
                     (case get_overall_average_usage (st_heap st) els1 of
                        Inl e \<Rightarrow> (Raised e, a, st1)
                      | Inr ds_overall_average_usage \<Rightarrow>
                          (let (extended_ds_denylist, a') = extend_ds_denylist a max_usage_aggr;
                               st2 = st\<lparr> st_elements :=
                                           vmfs_ds (st_heap st) els1 extended_ds_denylist \<rparr>;
                               (min_usage, max_usage) = usage_corridor a' ds_overall_average_usage;
                               (ex, st') = ds_balancing_loop ds_weight vm_info a' 0 st2
                           in (ex, a', st'))))))"

text \<open>\<open>sanity_checks\<close>: defined in the source, its only call is commented out.\<close>

definition sanity_checks :: "DS \<Rightarrow> DS \<Rightarrow> rat \<Rightarrow> rat \<Rightarrow> int \<Rightarrow> int \<Rightarrow> bool" where
  "sanity_checks least_used_ds most_used_ds min_u max_u min_free min_max_diff =
     (if is_below_usage most_used_ds max_u then False
      else if is_above_usage least_used_ds min_u then False
      else if is_below_freespace least_used_ds min_free then False
      else if usage most_used_ds - usage least_used_ds < of_int min_max_diff then False
      else True)"


section \<open>A concrete inventory\<close>

text \<open>
  Three datastores of 1000 GiB at 90, 50 and 40 percent, two aggregates at 90 and 40
  percent, three shadow units of 50, 20 and 10 GiB. The first datastore lies on the most
  used aggregate and is also on the configured deny list.
\<close>

definition DataStores_init :: "ds_element list \<Rightarrow> error + (heap \<times> ref list)" where
  "DataStores_init es = DataStores_alloc (\<lambda>_. undefined) 0 es"

definition shadow_vm :: "string \<Rightarrow> handle \<Rightarrow> int \<Rightarrow> VM" where
  "shadow_vm n hnd sz =
     \<lparr> vm_name = n, vm_handle = hnd, memoryMB = 128, numCPU = 1,
       powerState = ''poweredOff'', hw_device = [OtherDevice, VirtualDisk sz] \<rparr>"

definition ex_vol1 :: VM where
  "ex_vol1 = shadow_vm ''vol1'' 1 (50 * 1024 ^ 3)"

definition ex_vol2 :: VM where
  "ex_vol2 = shadow_vm ''vol2'' 2 (20 * 1024 ^ 3)"

definition ex_vol3 :: VM where
  "ex_vol3 = shadow_vm ''vol3'' 3 (10 * 1024 ^ 3)"

definition ex_vms :: "VM list" where
  "ex_vms = [ex_vol1, ex_vol2, ex_vol3]"

definition ex_ds_elements :: "ds_element list" where
  "ex_ds_elements =
     [\<lparr> el_name = ''vmfs_vc_a_ssd_bb7_1'', el_freeSpace = 100 * 1024 ^ 3,
        el_capacity = 1000 * 1024 ^ 3, el_vm = [1, 2], el_obj = 11 \<rparr>,
      \<lparr> el_name = ''vmfs_vc_a_ssd_bb7_2'', el_freeSpace = 500 * 1024 ^ 3,
        el_capacity = 1000 * 1024 ^ 3, el_vm = [3], el_obj = 12 \<rparr>,
      \<lparr> el_name = ''vmfs_vc_a_ssd_bb7_3'', el_freeSpace = 600 * 1024 ^ 3,
        el_capacity = 1000 * 1024 ^ 3, el_vm = [], el_obj = 13 \<rparr>]"

definition ex_lun :: "string \<Rightarrow> NALun" where
  "ex_lun n = \<lparr> lun_name = n, lun_type = ''vmfs'', lun_fvol = ''vmfs_vol'', lun_used = 0 \<rparr>"

definition ex_na :: "NA list" where
  "ex_na =
     [\<lparr> na_host = ''stnpca1-bb007'', na_aggr_elements =
         [\<lparr> aggr_name = ''aggr_1'', aggr_usage = 90, aggr_capacity = 2000 * 1024 ^ 3,
            luns = [ex_lun ''vmfs_vc_a_ssd_bb7_1''] \<rparr>,
          \<lparr> aggr_name = ''aggr_2'', aggr_usage = 40, aggr_capacity = 2000 * 1024 ^ 3,
            luns = [ex_lun ''vmfs_vc_a_ssd_bb7_2'', ex_lun ''vmfs_vc_a_ssd_bb7_3''] \<rparr>] \<rparr>]"

definition ex_args :: args where
  "ex_args =
     \<lparr> min_usage = 30, max_usage = 95, min_freespace = 100, min_max_difference = 2,
       autopilot = False, autopilot_range = 5, max_move_vms = 5,
       ds_denylist = Some [''vmfs_vc_a_ssd_bb7_1''],
       aggr_volume_min_size = 0, aggr_volume_max_size = 2500,
       flexvol_volume_min_size = 0, flexvol_volume_max_size = 2500, hdd = False \<rparr>"

definition ex_state :: state where
  "ex_state =
     (case DataStores_init ex_ds_elements of
        Inr (h, els) \<Rightarrow> \<lparr> st_heap = h, st_elements = els, st_moves = [] \<rparr>)"

subsection \<open>Predicates and further inputs\<close>

text \<open>The recomputation invariant of a datastore object.\<close>

definition usage_recomputed :: "DS \<Rightarrow> bool" where
  "usage_recomputed d = (usage d = (1 - of_int (freespace d) / of_int (capacity d)) * 100)"

text \<open>
  A second inventory: one aggregate at 90 percent with the LUN of a datastore at 90
  percent, and datastores of 1000, 10000 and 1000 GiB at 90, 41 and 40 percent that are
  joined to no LUN; two units of 50 and 300 GiB on the second datastore. \<open>ex8_state\<close> is
  the state at the entry of the datastore-level loop, \<open>ex8_next\<close> the state after its first
  iteration.
\<close>

definition ex_volB :: VM where
  "ex_volB = shadow_vm ''volB'' 2 (300 * 1024 ^ 3)"

definition ex8_ds_elements :: "ds_element list" where
  "ex8_ds_elements =
     [\<lparr> el_name = ''vmfs_vc_a_ssd_bb7_1'', el_freeSpace = 100 * 1024 ^ 3,
        el_capacity = 1000 * 1024 ^ 3, el_vm = [], el_obj = 11 \<rparr>,
      \<lparr> el_name = ''vmfs_vc_a_ssd_bb7_4'', el_freeSpace = 100 * 1024 ^ 3,
        el_capacity = 1000 * 1024 ^ 3, el_vm = [1, 2], el_obj = 14 \<rparr>,
      \<lparr> el_name = ''vmfs_vc_a_ssd_bb7_5'', el_freeSpace = 5900 * 1024 ^ 3,
        el_capacity = 10000 * 1024 ^ 3, el_vm = [], el_obj = 15 \<rparr>,
      \<lparr> el_name = ''vmfs_vc_a_ssd_bb7_6'', el_freeSpace = 600 * 1024 ^ 3,
        el_capacity = 1000 * 1024 ^ 3, el_vm = [], el_obj = 16 \<rparr>]"

definition ex8_na :: "NA list" where
  "ex8_na =
     [\<lparr> na_host = ''stnpca1-bb007'', na_aggr_elements =
         [\<lparr> aggr_name = ''aggr_1'', aggr_usage = 90, aggr_capacity = 2000 * 1024 ^ 3,
            luns = [ex_lun ''vmfs_vc_a_ssd_bb7_1''] \<rparr>] \<rparr>]"

definition ex8_inventory :: state where
  "ex8_inventory =
     (case DataStores_init ex8_ds_elements of
        Inr (h, els) \<Rightarrow> \<lparr> st_heap = h, st_elements = els, st_moves = [] \<rparr>)"

definition ex8_weight :: "string \<rightharpoonup> rat" where
  "ex8_weight = [''vmfs_vc_a_ssd_bb7_1'' \<mapsto> 1]"

definition ex8_state :: state where
  "ex8_state = ex8_inventory\<lparr> st_elements := [1, 2, 3] \<rparr>"

definition ex8_next :: state where
  "ex8_next = projr (ds_balancing_step ex8_weight [ex_vol1, ex_volB] ex_args ex8_state)"

text \<open>
  The precondition of \<open>get_aggr_and_ds_stats\<close>: every aggregate has a LUN with a datastore
  of its name, and every datastore found for a LUN has nonzero used bytes.
\<close>

definition lun_matched :: "heap \<Rightarrow> ref list \<Rightarrow> NALun \<Rightarrow> bool" where
  "lun_matched h elements lun = (get_by_name h elements (lun_name lun) \<noteq> None)"

definition lun_used_nonzero :: "heap \<Rightarrow> ref list \<Rightarrow> NALun \<Rightarrow> bool" where
  "lun_used_nonzero h elements lun =
     (case get_by_name h elements (lun_name lun) of
        None \<Rightarrow> True
      | Some r \<Rightarrow> used (h r) \<noteq> 0)"

definition aggr_precondition :: "heap \<Rightarrow> ref list \<Rightarrow> NAAggr \<Rightarrow> bool" where
  "aggr_precondition h elements aggr =
     (list_ex (lun_matched h elements) (luns aggr) \<and>
      list_all (lun_used_nonzero h elements) (luns aggr))"

definition stats_precondition :: "NA list \<Rightarrow> heap \<Rightarrow> ref list \<Rightarrow> bool" where
  "stats_precondition na_info h elements =
     list_all (\<lambda>na. list_all (aggr_precondition h elements) (na_aggr_elements na)) na_info"

text \<open>The capacity that the inner loop of \<open>get_aggr_and_ds_stats\<close> adds up over a list of LUNs.\<close>

definition matched_capacity :: "heap \<Rightarrow> ref list \<Rightarrow> NALun list \<Rightarrow> int" where
  "matched_capacity h elements ls =
     sum_list (map (\<lambda>lun. case get_by_name h elements (lun_name lun) of
                             None \<Rightarrow> 0
                           | Some r \<Rightarrow> capacity (h r)) ls)"

text \<open>The controllers of the concrete inventory with one more aggregate, whose only LUN has
  no datastore; and with the third datastore empty.\<close>

definition ex_na_unmatched :: "NA list" where
  "ex_na_unmatched =
     [\<lparr> na_host = ''stnpca1-bb007'', na_aggr_elements =
         [\<lparr> aggr_name = ''aggr_1'', aggr_usage = 90, aggr_capacity = 2000 * 1024 ^ 3,
            luns = [ex_lun ''vmfs_vc_a_ssd_bb7_1''] \<rparr>,
          \<lparr> aggr_name = ''aggr_2'', aggr_usage = 40, aggr_capacity = 2000 * 1024 ^ 3,
            luns = [ex_lun ''vmfs_vc_a_ssd_bb7_2'', ex_lun ''vmfs_vc_a_ssd_bb7_3''] \<rparr>,
          \<lparr> aggr_name = ''aggr_3'', aggr_usage = 10, aggr_capacity = 2000 * 1024 ^ 3,
            luns = [ex_lun ''vmfs_vc_a_ssd_bb7_9''] \<rparr>] \<rparr>]"

definition ex_state_empty_ds :: state where
  "ex_state_empty_ds =
     (case DataStores_init
             [\<lparr> el_name = ''vmfs_vc_a_ssd_bb7_1'', el_freeSpace = 100 * 1024 ^ 3,
                el_capacity = 1000 * 1024 ^ 3, el_vm = [1, 2], el_obj = 11 \<rparr>,
              \<lparr> el_name = ''vmfs_vc_a_ssd_bb7_2'', el_freeSpace = 500 * 1024 ^ 3,
                el_capacity = 1000 * 1024 ^ 3, el_vm = [3], el_obj = 12 \<rparr>,
              \<lparr> el_name = ''vmfs_vc_a_ssd_bb7_3'', el_freeSpace = 1000 * 1024 ^ 3,
                el_capacity = 1000 * 1024 ^ 3, el_vm = [], el_obj = 13 \<rparr>] of
        Inr (h, els) \<Rightarrow> \<lparr> st_heap = h, st_elements = els, st_moves = [] \<rparr>)"

text \<open>The most used aggregate of the concrete inventory.\<close>

definition ex_aggr_1 :: NAAggr where
  "ex_aggr_1 = \<lparr> aggr_name = ''aggr_1'', aggr_usage = 90, aggr_capacity = 2000 * 1024 ^ 3,
                  luns = [ex_lun ''vmfs_vc_a_ssd_bb7_1''] \<rparr>"

text \<open>
  One run of the body of \<open>check_loop\<close>: the pool-level pass on the inventory fetched first,
  then the datastore-level pass on the inventory fetched again, both with the same \<open>args\<close>
  object. The result is the two exit reasons and \<open>args\<close> as the next run finds it.
\<close>

definition check_loop_run ::
  "NA list \<Rightarrow> VM list \<Rightarrow> state \<Rightarrow> NA list \<Rightarrow> VM list \<Rightarrow> state \<Rightarrow> args
     \<Rightarrow> exit_reason \<times> exit_reason \<times> args" where
  "check_loop_run na_info1 vm_info1 ds_info1 na_info2 vm_info2 ds_info2 a =
     (let (ex1, a1, st1) = vmfs_aggr_balancing na_info1 vm_info1 a ds_info1;
          (ex2, a2, st2) = vmfs_ds_balancing na_info2 vm_info2 a1 ds_info2
      in (ex1, ex2, a2))"

text \<open>The exit reasons that are a \<open>break\<close> of the balancing loop of each pass.\<close>

definition aggr_loop_exits :: "exit_reason set" where
  "aggr_loop_exits = {MaxMovesReached, EnoughSpaceFreed, SourceGoodEnough, NoMoreShadowVms}"

definition ds_loop_exits :: "exit_reason set" where
  "ds_loop_exits = {MaxMovesReached, NoMoreShadowVms}"





section \<open>Properties\<close>

text \<open>The equations that evaluate the model on a concrete inventory.\<close>

lemmas ex_defs = ex_state_def DataStores_init_def ex_ds_elements_def ex_na_def ex_args_def
  ex_vms_def ex_vol1_def ex_vol2_def ex_vol3_def shadow_vm_def ex_lun_def DS_init_def

lemmas model_defs = vmfs_ds_balancing_def vmfs_aggr_balancing_def aggr_balancing_required_def
  aggr_balancing_step_def ds_balancing_step_def
  get_aggr_and_ds_stats_def get_max_usage_aggr_def aggr_total_used_def
  size_to_free_on_max_used_aggr_def within_autopilot_range_def
  float64_def ilog2_def scale2_def round_half_even_def bit_length.simps
  sort_by_usage_def vmfs_ds_def weight_get_def ds_name_regex_match_def lun_name_re_match_def
  re_dotstar_end_def
  get_overall_average_usage_def get_overall_capacity_def get_overall_freespace_def
  extend_ds_denylist_def usage_corridor_def balancing_source_ds_def
  ds_candidate_def aggr_candidate_def vm_maxdisksize_def get_shadow_vms_def is_shadow_vm_def
  is_VirtualDisk_def
  sort_vms_by_total_disksize_def get_total_disksize_def get_disksizes_def
  move_shadow_vm_from_ds_to_ds_def add_shadow_vm_def remove_shadow_vm_def Let_def

text \<open>The loops are unfolded by hand.\<close>

declare aggr_balancing_loop.simps [simp del]
declare ds_balancing_loop.simps [simp del]
declare bit_length.simps [simp del]

text \<open>Floor and ceiling of a quotient of numerals, for the evaluation of \<open>float64\<close>.\<close>

lemma floor_rat_numeral_div [simp]:
  "\<lfloor>(numeral a :: rat) / numeral b\<rfloor> = numeral a div numeral b"
  by (metis floor_divide_of_int_eq of_int_numeral)

lemma ceiling_rat_numeral_div [simp]:
  "\<lceil>(numeral a :: rat) / numeral b\<rceil> = - (- numeral a div numeral b)"
  by (metis ceiling_def floor_divide_of_int_eq minus_divide_left of_int_minus of_int_numeral)

text \<open>\<open>float64\<close> at known values: \<open>1 / 10\<close>, a tie that rounds down to the even significand
  and one that rounds up, and Python's \<open>0.55 * 100 = 55.00000000000001\<close>.\<close>

lemma float64_examples:
  "float64 (1 / 10) = 3602879701896397 / 36028797018963968"
  "float64 (2 ^ 53 + 1) = 2 ^ 53"
  "float64 (2 ^ 53 + 3) = 2 ^ 53 + 4"
  "float64 (float64 (55 / 100) * 100) = 7740561859543041 / 140737488355328"
  "float64 (- (1 / 10)) = - (3602879701896397 / 36028797018963968)"
  by (simp_all add: float64_def ilog2_def scale2_def round_half_even_def bit_length.simps
        Let_def)

subsection \<open>The move simulator\<close>

lemma sum_list_heap_upd:
  "distinct els \<Longrightarrow>
   sum_list (map (\<lambda>r. freespace ((h(a := d)) r)) els)
     = sum_list (map (\<lambda>r. freespace (h r)) els)
       + (if a \<in> set els then freespace d - freespace (h a) else 0)"
  by (induction els) auto

lemma remove_shadow_vm_Inr:
  "remove_shadow_vm ds vm = Inr d \<Longrightarrow>
     freespace d = freespace ds + get_total_disksize vm \<and> capacity d = capacity ds \<and>
     ds_name d = ds_name ds \<and> capacity ds \<noteq> 0 \<and> vm_handle vm \<in> set (vm_handles ds) \<and>
     usage_recomputed d"
  by (auto simp: remove_shadow_vm_def usage_recomputed_def Let_def split: if_splits)

lemma add_shadow_vm_Inr:
  "add_shadow_vm ds vm = Inr d \<Longrightarrow>
     freespace d = freespace ds - get_total_disksize vm \<and> capacity d = capacity ds \<and>
     ds_name d = ds_name ds \<and> capacity ds \<noteq> 0 \<and> usage_recomputed d"
  by (auto simp: add_shadow_vm_def usage_recomputed_def Let_def split: if_splits)

lemma remove_shadow_vm_total:
  "capacity ds \<noteq> 0 \<Longrightarrow> vm_handle vm \<in> set (vm_handles ds) \<Longrightarrow> \<exists>d. remove_shadow_vm ds vm = Inr d"
  by (simp add: remove_shadow_vm_def Let_def)

lemma add_shadow_vm_total:
  "capacity ds \<noteq> 0 \<Longrightarrow> \<exists>d. add_shadow_vm ds vm = Inr d"
  by (simp add: add_shadow_vm_def Let_def)

lemma move_Inr:
  assumes "move_shadow_vm_from_ds_to_ds h ds1 ds2 vm = Inr (h', m)"
  obtains d1 d2 where "remove_shadow_vm (h ds1) vm = Inr d1"
    "add_shadow_vm ((h(ds1 := d1)) ds2) vm = Inr d2" "h' = h(ds1 := d1, ds2 := d2)"
    "mv_source m = ds_name (h' ds1)" "mv_target m = ds_name (h' ds2)"
  using assms
  by (auto simp: move_shadow_vm_from_ds_to_ds_def Let_def split: sum.splits)

lemma move_total:
  assumes "ds1 \<noteq> ds2" "capacity (h ds1) \<noteq> 0" "capacity (h ds2) \<noteq> 0"
    "vm_handle vm \<in> set (vm_handles (h ds1))"
  shows "\<exists>h' m. move_shadow_vm_from_ds_to_ds h ds1 ds2 vm = Inr (h', m)"
proof -
  obtain d1 where d1: "remove_shadow_vm (h ds1) vm = Inr d1"
    using remove_shadow_vm_total[OF assms(2,4)] by blast
  obtain d2 where d2: "add_shadow_vm (h ds2) vm = Inr d2"
    using add_shadow_vm_total[OF assms(3)] by blast
  show ?thesis using d1 d2 assms(1)
    by (simp add: move_shadow_vm_from_ds_to_ds_def Let_def)
qed

lemma move_freespace:
  assumes "ds1 \<noteq> ds2"
    and "move_shadow_vm_from_ds_to_ds h ds1 ds2 vm = Inr (h', m)"
  shows "freespace (h' ds1) = freespace (h ds1) + get_total_disksize vm"
    and "freespace (h' ds2) = freespace (h ds2) - get_total_disksize vm"
    and "distinct els \<Longrightarrow> ds1 \<in> set els \<Longrightarrow> ds2 \<in> set els \<Longrightarrow> get_overall_freespace h' els = get_overall_freespace h els"
proof -
  from assms(2) obtain d1 d2 where r: "remove_shadow_vm (h ds1) vm = Inr d1"
    and a: "add_shadow_vm ((h(ds1 := d1)) ds2) vm = Inr d2" and h': "h' = h(ds1 := d1, ds2 := d2)"
    by (rule move_Inr)
  from a assms(1) have a': "add_shadow_vm (h ds2) vm = Inr d2" by simp
  note R = remove_shadow_vm_Inr[OF r] and A = add_shadow_vm_Inr[OF a']
  show "freespace (h' ds1) = freespace (h ds1) + get_total_disksize vm"
    using R assms(1) by (simp add: h')
  show "freespace (h' ds2) = freespace (h ds2) - get_total_disksize vm"
    using A by (simp add: h')
  show "get_overall_freespace h' els = get_overall_freespace h els"
    if "distinct els" "ds1 \<in> set els" "ds2 \<in> set els"
  proof -
    have "get_overall_freespace h' els
            = sum_list (map (\<lambda>r. freespace ((h(ds1 := d1)) r)) els)
              + (freespace d2 - freespace ((h(ds1 := d1)) ds2))"
      unfolding get_overall_freespace_def h'
      using that sum_list_heap_upd[of els "h(ds1 := d1)" ds2 d2] by simp
    also have "sum_list (map (\<lambda>r. freespace ((h(ds1 := d1)) r)) els)
            = get_overall_freespace h els + (freespace d1 - freespace (h ds1))"
      unfolding get_overall_freespace_def
      using that sum_list_heap_upd[of els h ds1 d1] by simp
    finally show ?thesis using R A assms(1) by simp
  qed
qed

text \<open>
  C1 (as amended). A move of a unit from datastore \<open>ds1\<close> to a distinct datastore \<open>ds2\<close>, both of
  nonzero capacity, is performed exactly when the unit is on \<open>ds1\<close> (\<open>list.remove\<close> raises
  ValueError otherwise); then the free space of the source \<^emph>\<open>grows\<close> by the size of the
  unit, the free space of the target \<^emph>\<open>shrinks\<close> by it, and the total free space over any
  duplicate-free list of datastores that holds both is unchanged.
\<close>

theorem move_conservation:
  assumes "ds1 \<noteq> ds2" "capacity (h ds1) \<noteq> 0" "capacity (h ds2) \<noteq> 0"
  shows "if vm_handle vm \<in> set (vm_handles (h ds1))
         then \<exists>h' m. move_shadow_vm_from_ds_to_ds h ds1 ds2 vm = Inr (h', m) \<and>
                freespace (h' ds1) = freespace (h ds1) + get_total_disksize vm \<and>
                freespace (h' ds2) = freespace (h ds2) - get_total_disksize vm \<and>
                (\<forall>els. distinct els \<and> ds1 \<in> set els \<and> ds2 \<in> set els \<longrightarrow>
                       get_overall_freespace h' els = get_overall_freespace h els)
         else move_shadow_vm_from_ds_to_ds h ds1 ds2 vm = Inl ValueError"
proof (cases "vm_handle vm \<in> set (vm_handles (h ds1))")
  case True
  obtain h' m where mv: "move_shadow_vm_from_ds_to_ds h ds1 ds2 vm = Inr (h', m)"
    using move_total[OF assms True] by blast
  show ?thesis
    using True mv move_freespace[OF assms(1) mv] by auto
next
  case False
  then show ?thesis
    by (simp add: move_shadow_vm_from_ds_to_ds_def remove_shadow_vm_def)
qed

text \<open>The objects of the concrete inventory.\<close>

lemma ex_heap:
  "st_heap ex_state 0 = \<lparr> ds_name = ''vmfs_vc_a_ssd_bb7_1'', freespace = 100 * 1024 ^ 3,
      capacity = 1000 * 1024 ^ 3, used = 900 * 1024 ^ 3, usage = 90, vm_handles = [1, 2],
      ds_handle = 11 \<rparr>"
  "st_heap ex_state (Suc 0) = \<lparr> ds_name = ''vmfs_vc_a_ssd_bb7_2'', freespace = 500 * 1024 ^ 3,
      capacity = 1000 * 1024 ^ 3, used = 500 * 1024 ^ 3, usage = 50, vm_handles = [3],
      ds_handle = 12 \<rparr>"
  "st_heap ex_state 2 = \<lparr> ds_name = ''vmfs_vc_a_ssd_bb7_3'', freespace = 600 * 1024 ^ 3,
      capacity = 1000 * 1024 ^ 3, used = 400 * 1024 ^ 3, usage = 40, vm_handles = [],
      ds_handle = 13 \<rparr>"
  "st_elements ex_state = [0, 1, 2]"
  "st_moves ex_state = []"
  by (simp_all add: ex_state_def ex_ds_elements_def DataStores_init_def DS_init_def)

text \<open>C1, witness: the 50 GiB unit moves from the first to the third datastore of the
  concrete inventory; the 10 GiB unit is not on the first datastore.\<close>

theorem move_conservation_witness:
  "(0::ref) \<noteq> 2 \<and> capacity (st_heap ex_state 0) \<noteq> 0 \<and> capacity (st_heap ex_state 2) \<noteq> 0 \<and>
   vm_handle ex_vol1 \<in> set (vm_handles (st_heap ex_state 0)) \<and>
   (\<exists>h' m. move_shadow_vm_from_ds_to_ds (st_heap ex_state) 0 2 ex_vol1 = Inr (h', m) \<and>
      freespace (h' 0) = 150 * 1024 ^ 3 \<and> freespace (h' 2) = 550 * 1024 ^ 3 \<and>
      get_overall_freespace h' [0, 1, 2] = get_overall_freespace (st_heap ex_state) [0, 1, 2]) \<and>
   vm_handle ex_vol3 \<notin> set (vm_handles (st_heap ex_state 0)) \<and>
   move_shadow_vm_from_ds_to_ds (st_heap ex_state) 0 2 ex_vol3 = Inl ValueError"
proof -
  let ?vm = "ex_vol1"
  have pre: "(0::ref) \<noteq> 2" "capacity (st_heap ex_state 0) \<noteq> 0" "capacity (st_heap ex_state 2) \<noteq> 0"
    "vm_handle ?vm \<in> set (vm_handles (st_heap ex_state 0))"
    by (simp_all add: ex_heap ex_vol1_def shadow_vm_def)
  have sz: "get_total_disksize ?vm = 50 * 1024 ^ 3"
    by (simp add: ex_vol1_def shadow_vm_def get_total_disksize_def get_disksizes_def)
  from move_conservation[OF pre(1-3), of ?vm] pre(4)
  have "\<exists>h' m. move_shadow_vm_from_ds_to_ds (st_heap ex_state) 0 2 ?vm = Inr (h', m) \<and>
          freespace (h' 0) = freespace (st_heap ex_state 0) + get_total_disksize ?vm \<and>
          freespace (h' 2) = freespace (st_heap ex_state 2) - get_total_disksize ?vm \<and>
          (\<forall>els. distinct els \<and> 0 \<in> set els \<and> 2 \<in> set els \<longrightarrow>
                 get_overall_freespace h' els = get_overall_freespace (st_heap ex_state) els)"
    by (simp only: if_True)
  then obtain h' m where
    mv: "move_shadow_vm_from_ds_to_ds (st_heap ex_state) 0 2 ?vm = Inr (h', m)"
    and f0: "freespace (h' 0) = freespace (st_heap ex_state 0) + get_total_disksize ?vm"
    and f2: "freespace (h' 2) = freespace (st_heap ex_state 2) - get_total_disksize ?vm"
    and tot: "\<forall>els. distinct els \<and> 0 \<in> set els \<and> 2 \<in> set els \<longrightarrow>
                get_overall_freespace h' els = get_overall_freespace (st_heap ex_state) els"
    by blast
  from tot have "get_overall_freespace h' [0, 1, 2] = get_overall_freespace (st_heap ex_state) [0, 1, 2]"
    by simp
  moreover have "freespace (h' 0) = 150 * 1024 ^ 3" using f0 by (simp add: sz ex_heap)
  moreover have "freespace (h' 2) = 550 * 1024 ^ 3" using f2 by (simp add: sz ex_heap)
  moreover have absent: "vm_handle ex_vol3 \<notin> set (vm_handles (st_heap ex_state 0))"
    by (simp add: ex_heap ex_vol3_def shadow_vm_def)
  moreover from move_conservation[OF pre(1-3), of ex_vol3] absent
  have "move_shadow_vm_from_ds_to_ds (st_heap ex_state) 0 2 ex_vol3 = Inl ValueError"
    by (simp only: if_False)
  ultimately show ?thesis using pre mv by blast
qed

text \<open>
  C1, counterexample to the signs of the claim: the source had 100 GiB free and has 150 GiB
  after the move, not 50 GiB; the target had 600 GiB free and has 550 GiB, not 650 GiB.
\<close>

theorem move_conservation_counterexample:
  "\<not> isl (move_shadow_vm_from_ds_to_ds (st_heap ex_state) 0 2 ex_vol1) \<and>
   capacity (st_heap ex_state 0) = 1000 * 1024 ^ 3 \<and> capacity (st_heap ex_state 2) = 1000 * 1024 ^ 3 \<and>
   get_total_disksize ex_vol1 = 50 * 1024 ^ 3 \<and>
   freespace (st_heap ex_state 0) = 100 * 1024 ^ 3 \<and>
   freespace (fst (projr (move_shadow_vm_from_ds_to_ds (st_heap ex_state) 0 2
                            ex_vol1)) 0) = 150 * 1024 ^ 3 \<and>
   freespace (st_heap ex_state 2) = 600 * 1024 ^ 3 \<and>
   freespace (fst (projr (move_shadow_vm_from_ds_to_ds (st_heap ex_state) 0 2
                            ex_vol1)) 2) = 550 * 1024 ^ 3 \<and>
   freespace (fst (projr (move_shadow_vm_from_ds_to_ds (st_heap ex_state) 0 2 ex_vol1)) 0)
     \<noteq> freespace (st_heap ex_state 0) - get_total_disksize ex_vol1 \<and>
   freespace (fst (projr (move_shadow_vm_from_ds_to_ds (st_heap ex_state) 0 2 ex_vol1)) 2)
     \<noteq> freespace (st_heap ex_state 2) + get_total_disksize ex_vol1"
  by (simp add: ex_heap ex_vol1_def shadow_vm_def get_total_disksize_def get_disksizes_def
        move_shadow_vm_from_ds_to_ds_def add_shadow_vm_def remove_shadow_vm_def Let_def)


subsection \<open>Usage is recomputed\<close>

lemma DS_init_Inr:
  "el_capacity e \<noteq> 0 \<Longrightarrow> \<exists>d. DS_init e = Inr d \<and> usage_recomputed d"
  by (simp add: DS_init_def usage_recomputed_def)

lemma move_usage_recomputed:
  assumes "move_shadow_vm_from_ds_to_ds h ds1 ds2 vm = Inr (h', m)"
  shows "usage_recomputed (h' ds1)" "usage_recomputed (h' ds2)"
    "usage_recomputed (h r) \<Longrightarrow> usage_recomputed (h' r)"
proof -
  from assms obtain d1 d2 where r: "remove_shadow_vm (h ds1) vm = Inr d1"
    and a: "add_shadow_vm ((h(ds1 := d1)) ds2) vm = Inr d2" and h': "h' = h(ds1 := d1, ds2 := d2)"
    by (rule move_Inr)
  have u1: "usage_recomputed d1" using remove_shadow_vm_Inr[OF r] by simp
  have u2: "usage_recomputed d2" using add_shadow_vm_Inr[OF a] by simp
  show "usage_recomputed (h' ds1)" using u1 u2 by (simp add: h')
  show "usage_recomputed (h' ds2)" using u2 by (simp add: h')
  show "usage_recomputed (h' r)" if "usage_recomputed (h r)"
    using that u1 u2 by (simp add: h')
qed

text \<open>
  C5. \<open>usage = (1 - freespace / capacity) * 100\<close> holds for the object that \<open>DS.__init__\<close>
  builds from a nonzero capacity, is established by \<open>add_shadow_vm\<close> and by
  \<open>remove_shadow_vm\<close> whenever they return, and so holds for source and target after every
  move, and after the move for every object for which it held before: every assignment
  to \<open>usage\<close> computes it from \<open>freespace\<close> and \<open>capacity\<close>.
\<close>

theorem usage_recomputation_invariant:
  "(el_capacity e \<noteq> 0 \<longrightarrow> (\<exists>d. DS_init e = Inr d \<and> usage_recomputed d)) \<and>
   (capacity ds \<noteq> 0 \<longrightarrow> (\<exists>d. add_shadow_vm ds vm = Inr d \<and> usage_recomputed d)) \<and>
   (capacity ds \<noteq> 0 \<and> vm_handle vm \<in> set (vm_handles ds) \<longrightarrow>
      (\<exists>d. remove_shadow_vm ds vm = Inr d \<and> usage_recomputed d)) \<and>
   (move_shadow_vm_from_ds_to_ds h ds1 ds2 vm = Inr (h', m) \<longrightarrow>
      usage_recomputed (h' ds1) \<and> usage_recomputed (h' ds2) \<and>
      (\<forall>r. usage_recomputed (h r) \<longrightarrow> usage_recomputed (h' r)))"
proof (intro conjI impI allI)
  assume "el_capacity e \<noteq> 0"
  then show "\<exists>d. DS_init e = Inr d \<and> usage_recomputed d" by (rule DS_init_Inr)
next
  assume "capacity ds \<noteq> 0"
  then obtain d where "add_shadow_vm ds vm = Inr d" using add_shadow_vm_total by blast
  then show "\<exists>d. add_shadow_vm ds vm = Inr d \<and> usage_recomputed d"
    using add_shadow_vm_Inr by blast
next
  assume "capacity ds \<noteq> 0 \<and> vm_handle vm \<in> set (vm_handles ds)"
  then obtain d where "remove_shadow_vm ds vm = Inr d" using remove_shadow_vm_total by blast
  then show "\<exists>d. remove_shadow_vm ds vm = Inr d \<and> usage_recomputed d"
    using remove_shadow_vm_Inr by blast
next
  assume mv: "move_shadow_vm_from_ds_to_ds h ds1 ds2 vm = Inr (h', m)"
  show "usage_recomputed (h' ds1)" by (rule move_usage_recomputed(1)[OF mv])
  show "usage_recomputed (h' ds2)" by (rule move_usage_recomputed(2)[OF mv])
  fix r assume "usage_recomputed (h r)"
  then show "usage_recomputed (h' r)" by (rule move_usage_recomputed(3)[OF mv])
qed

lemma ex_move_0_2:
  "move_shadow_vm_from_ds_to_ds (st_heap ex_state) 0 2 ex_vol1 =
     Inr ((st_heap ex_state)
            (0 := \<lparr> ds_name = ''vmfs_vc_a_ssd_bb7_1'', freespace = 150 * 1024 ^ 3,
                    capacity = 1000 * 1024 ^ 3, used = 900 * 1024 ^ 3, usage = 85,
                    vm_handles = [2], ds_handle = 11 \<rparr>,
             2 := \<lparr> ds_name = ''vmfs_vc_a_ssd_bb7_3'', freespace = 550 * 1024 ^ 3,
                    capacity = 1000 * 1024 ^ 3, used = 400 * 1024 ^ 3, usage = 45,
                    vm_handles = [1], ds_handle = 13 \<rparr>),
          \<lparr> mv_vm = ''vol1'', mv_size = 50 * 1024 ^ 3,
            mv_source = ''vmfs_vc_a_ssd_bb7_1'', mv_target = ''vmfs_vc_a_ssd_bb7_3'',
            source_usage_before = 90, source_usage_after = 85,
            target_usage_before = 40, target_usage_after = 45 \<rparr>)"
  by (simp add: ex_heap ex_vol1_def shadow_vm_def get_total_disksize_def
        get_disksizes_def move_shadow_vm_from_ds_to_ds_def add_shadow_vm_def
        remove_shadow_vm_def Let_def)

text \<open>C5, witness: construction of the first datastore of the concrete inventory, and the
  move of the 50 GiB unit away from it.\<close>

theorem usage_recomputation_invariant_witness:
  "el_capacity (hd ex_ds_elements) \<noteq> 0 \<and>
   DS_init (hd ex_ds_elements) = Inr (st_heap ex_state 0) \<and>
   usage (st_heap ex_state 0) = 90 \<and>
   capacity (st_heap ex_state 0) \<noteq> 0 \<and>
   vm_handle ex_vol1 \<in> set (vm_handles (st_heap ex_state 0)) \<and>
   (\<exists>d. add_shadow_vm (st_heap ex_state 0) ex_vol1 = Inr d \<and> usage_recomputed d) \<and>
   (\<exists>d. remove_shadow_vm (st_heap ex_state 0) ex_vol1 = Inr d \<and> usage_recomputed d) \<and>
   (\<exists>h' m. move_shadow_vm_from_ds_to_ds (st_heap ex_state) 0 2 ex_vol1 = Inr (h', m) \<and>
      usage_recomputed (st_heap ex_state 0) \<and>
      usage_recomputed (h' 0) \<and> usage_recomputed (h' 2) \<and> usage (h' 0) = 85)"
proof -
  have c: "el_capacity (hd ex_ds_elements) \<noteq> 0" by (simp add: ex_ds_elements_def)
  have i: "DS_init (hd ex_ds_elements) = Inr (st_heap ex_state 0)"
    by (simp add: ex_heap ex_ds_elements_def DS_init_def)
  have p: "capacity (st_heap ex_state 0) \<noteq> 0"
    "vm_handle ex_vol1 \<in> set (vm_handles (st_heap ex_state 0))"
    by (simp_all add: ex_heap ex_vol1_def shadow_vm_def)
  obtain h' m where mv: "move_shadow_vm_from_ds_to_ds (st_heap ex_state) 0 2 ex_vol1 = Inr (h', m)"
    and u: "usage (h' 0) = 85"
    using ex_move_0_2 by simp
  note T = usage_recomputation_invariant[of "hd ex_ds_elements" "st_heap ex_state 0" ex_vol1
      "st_heap ex_state" 0 2 h' m]
  from T c i have u0: "usage_recomputed (st_heap ex_state 0)" by auto
  from T p have a: "\<exists>d. add_shadow_vm (st_heap ex_state 0) ex_vol1 = Inr d \<and> usage_recomputed d"
    and r: "\<exists>d. remove_shadow_vm (st_heap ex_state 0) ex_vol1 = Inr d \<and> usage_recomputed d"
    by blast+
  from T mv have "usage_recomputed (h' 0) \<and> usage_recomputed (h' 2)" by blast
  with c i p a r mv u u0 show ?thesis by (auto simp: ex_heap)
qed

subsection \<open>Damping in the datastore-level balancer\<close>

text \<open>
  C8 (as amended). The damped maximum \<open>min((least.free - most.free) / 2, flexvol_volume_max_size)\<close>
  is a non-decreasing function of the free-space gap between the least and the most used
  datastore: with the configuration unchanged, when the free-space gap narrows, the
  damped maximum does not grow.
\<close>

theorem damping_monotone:
  assumes "freespace l1 - freespace m1 \<le> freespace l2 - freespace m2"
  shows "vm_maxdisksize l1 m1 a \<le> vm_maxdisksize l2 m2 a"
proof -
  have "(of_int (freespace l1 - freespace m1) :: rat) \<le> of_int (freespace l2 - freespace m2)"
    using assms by (simp only: of_int_le_iff)
  then have "(of_int (freespace l1 - freespace m1) :: rat) / (2 * 1024 ^ 3)
               \<le> of_int (freespace l2 - freespace m2) / (2 * 1024 ^ 3)"
    by (rule divide_right_mono) simp
  then show ?thesis
    unfolding vm_maxdisksize_def by (rule min.mono) simp
qed

text \<open>The objects of the second inventory, and the first iteration of the loop: the
  50 GiB unit goes from the second datastore to the fourth, the 300 GiB unit is above the
  damped maximum.\<close>

lemma ex8_heap:
  "st_heap ex8_state 0 = \<lparr> ds_name = ''vmfs_vc_a_ssd_bb7_1'', freespace = 100 * 1024 ^ 3,
      capacity = 1000 * 1024 ^ 3, used = 900 * 1024 ^ 3, usage = 90, vm_handles = [],
      ds_handle = 11 \<rparr>"
  "st_heap ex8_state (Suc 0) = \<lparr> ds_name = ''vmfs_vc_a_ssd_bb7_4'', freespace = 100 * 1024 ^ 3,
      capacity = 1000 * 1024 ^ 3, used = 900 * 1024 ^ 3, usage = 90, vm_handles = [1, 2],
      ds_handle = 14 \<rparr>"
  "st_heap ex8_state 2 = \<lparr> ds_name = ''vmfs_vc_a_ssd_bb7_5'', freespace = 5900 * 1024 ^ 3,
      capacity = 10000 * 1024 ^ 3, used = 4100 * 1024 ^ 3, usage = 41, vm_handles = [],
      ds_handle = 15 \<rparr>"
  "st_heap ex8_state 3 = \<lparr> ds_name = ''vmfs_vc_a_ssd_bb7_6'', freespace = 600 * 1024 ^ 3,
      capacity = 1000 * 1024 ^ 3, used = 400 * 1024 ^ 3, usage = 40, vm_handles = [],
      ds_handle = 16 \<rparr>"
  "st_elements ex8_state = [1, 2, 3]"
  "st_moves ex8_state = []"
  "st_heap ex8_inventory = st_heap ex8_state"
  "st_elements ex8_inventory = [0, 1, 2, 3]"
  by (simp_all add: ex8_state_def ex8_inventory_def ex8_ds_elements_def DataStores_init_def
        DS_init_def)

lemma ex8_step:
  "ds_balancing_step ex8_weight [ex_vol1, ex_volB] ex_args ex8_state =
     Inr \<lparr> st_heap = (st_heap ex8_state)
              (Suc 0 := \<lparr> ds_name = ''vmfs_vc_a_ssd_bb7_4'', freespace = 150 * 1024 ^ 3,
                          capacity = 1000 * 1024 ^ 3, used = 900 * 1024 ^ 3, usage = 85,
                          vm_handles = [2], ds_handle = 14 \<rparr>,
               3 := \<lparr> ds_name = ''vmfs_vc_a_ssd_bb7_6'', freespace = 550 * 1024 ^ 3,
                      capacity = 1000 * 1024 ^ 3, used = 400 * 1024 ^ 3, usage = 45,
                      vm_handles = [1], ds_handle = 16 \<rparr>),
            st_elements = [1, 3, 2],
            st_moves = [\<lparr> mv_vm = ''vol1'', mv_size = 50 * 1024 ^ 3,
                           mv_source = ''vmfs_vc_a_ssd_bb7_4'',
                           mv_target = ''vmfs_vc_a_ssd_bb7_6'',
                           source_usage_before = 90, source_usage_after = 85,
                           target_usage_before = 40, target_usage_after = 45 \<rparr>] \<rparr>"
  by (simp add: ds_balancing_step_def ex8_heap ex8_weight_def sort_by_usage_def weight_get_def
        ds_candidate_def vm_maxdisksize_def get_shadow_vms_def is_shadow_vm_def
        is_VirtualDisk_def sort_vms_by_total_disksize_def get_total_disksize_def
        get_disksizes_def move_shadow_vm_from_ds_to_ds_def add_shadow_vm_def
        remove_shadow_vm_def Let_def ex_vol1_def ex_volB_def shadow_vm_def ex_args_def)

lemma ex8_next_heap:
  "st_heap ex8_next (Suc 0) = \<lparr> ds_name = ''vmfs_vc_a_ssd_bb7_4'', freespace = 150 * 1024 ^ 3,
      capacity = 1000 * 1024 ^ 3, used = 900 * 1024 ^ 3, usage = 85, vm_handles = [2],
      ds_handle = 14 \<rparr>"
  "st_heap ex8_next 2 = st_heap ex8_state 2"
  "st_heap ex8_next 3 = \<lparr> ds_name = ''vmfs_vc_a_ssd_bb7_6'', freespace = 550 * 1024 ^ 3,
      capacity = 1000 * 1024 ^ 3, used = 400 * 1024 ^ 3, usage = 45, vm_handles = [1],
      ds_handle = 16 \<rparr>"
  "st_elements ex8_next = [1, 3, 2]"
  unfolding ex8_next_def ex8_step by simp_all

text \<open>The datastore-level pass on the second inventory.\<close>

lemma ex8_pass:
  "get_aggr_and_ds_stats ex8_na (st_heap ex8_inventory) (st_elements ex8_inventory)
     = Inr ex8_weight"
  "get_max_usage_aggr ex8_na = Inr (ex_aggr_1, 90)"
  "vmfs_ds (st_heap ex8_inventory)
     (sort_by_usage (st_heap ex8_inventory) Map.empty
        (vmfs_ds (st_heap ex8_inventory) (st_elements ex8_inventory) []))
     (fst (extend_ds_denylist ex_args ex_aggr_1)) = [1, 2, 3]"
  "st_moves (snd (snd (vmfs_ds_balancing ex8_na [ex_vol1, ex_volB] ex_args ex8_inventory)))
   = [\<lparr> mv_vm = ''vol1'', mv_size = 50 * 1024 ^ 3,
        mv_source = ''vmfs_vc_a_ssd_bb7_4'', mv_target = ''vmfs_vc_a_ssd_bb7_6'',
        source_usage_before = 90, source_usage_after = 85,
        target_usage_before = 40, target_usage_after = 45 \<rparr>,
      \<lparr> mv_vm = ''volB'', mv_size = 300 * 1024 ^ 3,
        mv_source = ''vmfs_vc_a_ssd_bb7_4'', mv_target = ''vmfs_vc_a_ssd_bb7_5'',
        source_usage_before = 85, source_usage_after = 55,
        target_usage_before = 41, target_usage_after = 44 \<rparr>]"
  by (simp_all add: ex8_inventory_def ex8_ds_elements_def ex8_na_def ex8_weight_def
        ex_aggr_1_def ex_volB_def DataStores_init_def ex_args_def ex_vol1_def shadow_vm_def
        ex_lun_def DS_init_def model_defs ds_balancing_loop.simps)

text \<open>C8, witness: the free-space gap of the first iteration (500 GiB) against that of the
  second (5750 GiB).\<close>

theorem damping_monotone_witness:
  "freespace (st_heap ex8_state 3) - freespace (st_heap ex8_state 1)
     \<le> freespace (st_heap ex8_next 2) - freespace (st_heap ex8_next 1) \<and>
   vm_maxdisksize (st_heap ex8_state 3) (st_heap ex8_state 1) ex_args
     \<le> vm_maxdisksize (st_heap ex8_next 2) (st_heap ex8_next 1) ex_args"
proof -
  have g: "freespace (st_heap ex8_state 3) - freespace (st_heap ex8_state 1)
     \<le> freespace (st_heap ex8_next 2) - freespace (st_heap ex8_next 1)"
    by (simp add: ex8_next_heap ex8_heap)
  from damping_monotone[OF g] g show ?thesis by blast
qed

text \<open>
  C8, counterexample to the usage gap, in the datastore-level pass on the second
  inventory. The loop starts on the second, third and fourth datastore. In the first
  iteration the most used is the second (90 percent) and the least used the fourth (40
  percent), the damped maximum is 250 GiB: the 300 GiB unit is too large and the 50 GiB
  unit is moved. In the second iteration the most used is still the second (85 percent),
  the least used is now the third (41 percent, ten times the capacity): the usage gap has
  narrowed from 50 to 44 points, the damped maximum has grown to 2500 GiB, and the
  300 GiB unit is moved.
\<close>

theorem damping_usage_gap_counterexample:
  "get_aggr_and_ds_stats ex8_na (st_heap ex8_inventory) (st_elements ex8_inventory)
     = Inr ex8_weight \<and>
   get_max_usage_aggr ex8_na = Inr (ex_aggr_1, 90) \<and>
   vmfs_ds (st_heap ex8_inventory)
     (sort_by_usage (st_heap ex8_inventory) Map.empty
        (vmfs_ds (st_heap ex8_inventory) (st_elements ex8_inventory) []))
     (fst (extend_ds_denylist ex_args ex_aggr_1)) = st_elements ex8_state \<and>
   st_heap ex8_inventory = st_heap ex8_state \<and>
   \<not> isl (ds_balancing_step ex8_weight [ex_vol1, ex_volB] ex_args ex8_state) \<and>
   hd (st_elements ex8_state) = 1 \<and>
   last (sort_by_usage (st_heap ex8_state) ex8_weight (st_elements ex8_state)) = 3 \<and>
   hd (st_elements ex8_next) = 1 \<and>
   last (sort_by_usage (st_heap ex8_next) ex8_weight (st_elements ex8_next)) = 2 \<and>
   usage (st_heap ex8_state 1) - usage (st_heap ex8_state 3) = 50 \<and>
   usage (st_heap ex8_next 1) - usage (st_heap ex8_next 2) = 44 \<and>
   vm_maxdisksize (st_heap ex8_state 3) (st_heap ex8_state 1) ex_args = 250 \<and>
   vm_maxdisksize (st_heap ex8_next 2) (st_heap ex8_next 1) ex_args = 2500 \<and>
   st_moves (snd (snd (vmfs_ds_balancing ex8_na [ex_vol1, ex_volB] ex_args ex8_inventory)))
   = [\<lparr> mv_vm = ''vol1'', mv_size = 50 * 1024 ^ 3,
        mv_source = ''vmfs_vc_a_ssd_bb7_4'', mv_target = ''vmfs_vc_a_ssd_bb7_6'',
        source_usage_before = 90, source_usage_after = 85,
        target_usage_before = 40, target_usage_after = 45 \<rparr>,
      \<lparr> mv_vm = ''volB'', mv_size = 300 * 1024 ^ 3,
        mv_source = ''vmfs_vc_a_ssd_bb7_4'', mv_target = ''vmfs_vc_a_ssd_bb7_5'',
        source_usage_before = 85, source_usage_after = 55,
        target_usage_before = 41, target_usage_after = 44 \<rparr>]"
proof -
  have "\<not> isl (ds_balancing_step ex8_weight [ex_vol1, ex_volB] ex_args ex8_state)"
    unfolding ex8_step by simp
  moreover have "hd (st_elements ex8_state) = 1"
    "last (sort_by_usage (st_heap ex8_state) ex8_weight (st_elements ex8_state)) = 3"
    "hd (st_elements ex8_next) = 1"
    "last (sort_by_usage (st_heap ex8_next) ex8_weight (st_elements ex8_next)) = 2"
    "usage (st_heap ex8_state 1) - usage (st_heap ex8_state 3) = 50"
    "usage (st_heap ex8_next 1) - usage (st_heap ex8_next 2) = 44"
    "vm_maxdisksize (st_heap ex8_state 3) (st_heap ex8_state 1) ex_args = 250"
    "vm_maxdisksize (st_heap ex8_next 2) (st_heap ex8_next 1) ex_args = 2500"
    by (simp_all add: ex8_next_heap ex8_heap ex8_weight_def sort_by_usage_def weight_get_def
          vm_maxdisksize_def ex_args_def)
  ultimately show ?thesis
    using ex8_pass ex8_heap(5,7) by simp
qed

subsection \<open>Join and weighting\<close>

lemma get_by_name_Some:
  "get_by_name h els n = Some r \<Longrightarrow> r \<in> set els \<and> ds_name (h r) = n"
  by (induction els) (auto split: if_splits)

lemma stats_luns_ok:
  assumes cap: "\<forall>r\<in>set els. 0 < capacity (h r)"
  shows "list_all (lun_used_nonzero h els) ls \<Longrightarrow>
         \<exists>u' w'. stats_luns h els aggr ls (c, u, w) = Inr (c + matched_capacity h els ls, u', w')"
proof (induction ls arbitrary: c u w)
  case Nil
  then show ?case by (simp add: matched_capacity_def)
next
  case (Cons lun ls)
  from Cons.prems have rest: "list_all (lun_used_nonzero h els) ls"
    and this_lun: "lun_used_nonzero h els lun" by simp_all
  show ?case
  proof (cases "get_by_name h els (lun_name lun)")
    case None
    with Cons.IH[OF rest, of c u w] show ?thesis by (simp add: matched_capacity_def)
  next
    case (Some r)
    then have "r \<in> set els" using get_by_name_Some by blast
    with cap have c0: "capacity (h r) \<noteq> 0" by auto
    from this_lun Some have u0: "used (h r) \<noteq> 0" by (simp add: lun_used_nonzero_def)
    define w2 where "w2 = w(lun_name lun \<mapsto>
        of_int (aggr_usage aggr) / (of_int (used (h r)) / of_int (capacity (h r)) * 100))"
    from Cons.IH[OF rest, of "c + capacity (h r)" "u + used (h r)" w2]
    obtain u' w' where "stats_luns h els aggr ls (c + capacity (h r), u + used (h r), w2)
        = Inr (c + capacity (h r) + matched_capacity h els ls, u', w')" by blast
    moreover have "matched_capacity h els (lun # ls) = capacity (h r) + matched_capacity h els ls"
      using Some by (simp add: matched_capacity_def)
    moreover have "stats_luns h els aggr (lun # ls) (c, u, w)
        = stats_luns h els aggr ls (c + capacity (h r), u + used (h r), w2)"
      using Some c0 u0 by (simp add: w2_def)
    ultimately show ?thesis by (simp add: add.assoc)
  qed
qed

lemma stats_luns_bad:
  assumes cap: "\<forall>r\<in>set els. 0 < capacity (h r)"
  shows "\<not> list_all (lun_used_nonzero h els) ls \<Longrightarrow>
         stats_luns h els aggr ls (c, u, w) = Inl ZeroDivisionError"
proof (induction ls arbitrary: c u w)
  case Nil
  then show ?case by simp
next
  case (Cons lun ls)
  show ?case
  proof (cases "get_by_name h els (lun_name lun)")
    case None
    then have "lun_used_nonzero h els lun" by (simp add: lun_used_nonzero_def)
    with Cons.prems have "\<not> list_all (lun_used_nonzero h els) ls" by simp
    from Cons.IH[OF this] None show ?thesis by simp
  next
    case (Some r)
    then have "r \<in> set els" using get_by_name_Some by blast
    with cap have c0: "capacity (h r) \<noteq> 0" by auto
    show ?thesis
    proof (cases "used (h r) = 0")
      case True
      with Some c0 show ?thesis by simp
    next
      case False
      with Some have "lun_used_nonzero h els lun" by (simp add: lun_used_nonzero_def)
      with Cons.prems have "\<not> list_all (lun_used_nonzero h els) ls" by simp
      from Cons.IH[OF this] Some c0 False show ?thesis by simp
    qed
  qed
qed

lemma matched_capacity_pos:
  assumes cap: "\<forall>r\<in>set els. 0 < capacity (h r)"
  shows "0 \<le> matched_capacity h els ls \<and>
         (matched_capacity h els ls = 0 \<longleftrightarrow> \<not> list_ex (lun_matched h els) ls)"
proof (induction ls)
  case Nil
  then show ?case by (simp add: matched_capacity_def)
next
  case (Cons lun ls)
  show ?case
  proof (cases "get_by_name h els (lun_name lun)")
    case None
    with Cons show ?thesis by (simp add: matched_capacity_def lun_matched_def)
  next
    case (Some r)
    then have "r \<in> set els" using get_by_name_Some by blast
    with cap have "0 < capacity (h r)" by auto
    with Cons Some show ?thesis by (simp add: matched_capacity_def lun_matched_def)
  qed
qed

lemma stats_aggrs_total:
  assumes cap: "\<forall>r\<in>set els. 0 < capacity (h r)"
  shows "if list_all (aggr_precondition h els) as
         then \<exists>w'. stats_aggrs h els as w = Inr w'
         else stats_aggrs h els as w = Inl ZeroDivisionError"
proof (induction as arbitrary: w)
  case Nil
  show ?case by simp
next
  case (Cons aggr as)
  show ?case
  proof (cases "list_all (lun_used_nonzero h els) (luns aggr)")
    case False
    from stats_luns_bad[OF cap False] False show ?thesis
      by (simp add: aggr_precondition_def)
  next
    case True
    from stats_luns_ok[OF cap True, of aggr 0 0 w] obtain u' w' where
      sl: "stats_luns h els aggr (luns aggr) (0, 0, w)
             = Inr (matched_capacity h els (luns aggr), u', w')" by auto
    show ?thesis
    proof (cases "list_ex (lun_matched h els) (luns aggr)")
      case False
      with matched_capacity_pos[OF cap, of "luns aggr"]
      have "matched_capacity h els (luns aggr) = 0" by simp
      with sl False show ?thesis by (simp add: aggr_precondition_def)
    next
      case ex: True
      with matched_capacity_pos[OF cap, of "luns aggr"]
      have "matched_capacity h els (luns aggr) \<noteq> 0" by simp
      with sl ex True Cons.IH[of w'] show ?thesis by (simp add: aggr_precondition_def)
    qed
  qed
qed

lemma stats_nas_total:
  assumes cap: "\<forall>r\<in>set els. 0 < capacity (h r)"
  shows "if list_all (\<lambda>na. list_all (aggr_precondition h els) (na_aggr_elements na)) nas
         then \<exists>w'. stats_nas h els nas w = Inr w'
         else stats_nas h els nas w = Inl ZeroDivisionError"
proof (induction nas arbitrary: w)
  case Nil
  show ?case by simp
next
  case (Cons na nas)
  show ?case
  proof (cases "list_all (aggr_precondition h els) (na_aggr_elements na)")
    case False
    with stats_aggrs_total[OF cap, of "na_aggr_elements na" w] show ?thesis by simp
  next
    case True
    with stats_aggrs_total[OF cap, of "na_aggr_elements na" w] obtain w' where
      "stats_aggrs h els (na_aggr_elements na) w = Inr w'" by auto
    with True Cons.IH[of w'] show ?thesis by simp
  qed
qed

text \<open>
  C10. With datastores of positive capacity, \<open>get_aggr_and_ds_stats\<close> returns a weight map
  exactly when every datastore found for a LUN has nonzero used bytes and every aggregate
  has at least one LUN with a datastore of its name; in every other case it raises
  ZeroDivisionError: from the weight of a datastore whose \<open>freespace\<close> equals its
  \<open>capacity\<close>, or from the log line of an aggregate without any matched LUN.
\<close>

theorem get_aggr_and_ds_stats_total_iff:
  assumes "\<forall>r\<in>set els. 0 < capacity (h r)"
  shows "if stats_precondition na_info h els
         then \<exists>ds_weight. get_aggr_and_ds_stats na_info h els = Inr ds_weight
         else get_aggr_and_ds_stats na_info h els = Inl ZeroDivisionError"
  using stats_nas_total[OF assms, of na_info Map.empty]
  by (simp add: get_aggr_and_ds_stats_def stats_precondition_def)


text \<open>The inventory with the third datastore empty.\<close>

lemma ex_empty_heap:
  "st_heap ex_state_empty_ds 0 = st_heap ex_state 0"
  "st_heap ex_state_empty_ds (Suc 0) = st_heap ex_state (Suc 0)"
  "st_heap ex_state_empty_ds 2 = \<lparr> ds_name = ''vmfs_vc_a_ssd_bb7_3'', freespace = 1000 * 1024 ^ 3,
      capacity = 1000 * 1024 ^ 3, used = 0, usage = 0, vm_handles = [],
      ds_handle = 13 \<rparr>"
  "st_elements ex_state_empty_ds = [0, 1, 2]"
  by (simp_all add: ex_state_empty_ds_def ex_heap DataStores_init_def DS_init_def)

text \<open>
  C4, at the failing inputs: an aggregate whose only LUN has no datastore, where the claim
  says that nothing is raised, and a LUN whose datastore is empty, where the claim says
  that a weight is entered. The function raises ZeroDivisionError at both.
\<close>

theorem unmatched_lun_raises:
  "get_by_name (st_heap ex_state) (st_elements ex_state) ''vmfs_vc_a_ssd_bb7_9'' = None \<and>
   get_aggr_and_ds_stats ex_na_unmatched (st_heap ex_state) (st_elements ex_state)
     = Inl ZeroDivisionError \<and>
   get_by_name (st_heap ex_state_empty_ds) (st_elements ex_state_empty_ds)
     ''vmfs_vc_a_ssd_bb7_3'' = Some 2 \<and>
   freespace (st_heap ex_state_empty_ds 2) = capacity (st_heap ex_state_empty_ds 2) \<and>
   get_aggr_and_ds_stats ex_na (st_heap ex_state_empty_ds) (st_elements ex_state_empty_ds)
     = Inl ZeroDivisionError"
  by (simp add: ex_heap ex_empty_heap get_aggr_and_ds_stats_def ex_na_unmatched_def ex_na_def
        ex_lun_def)

text \<open>C10, witness: the concrete inventory, where the precondition holds, and the two
  inputs that violate it.\<close>

theorem get_aggr_and_ds_stats_total_iff_witness:
  "list_all (\<lambda>r. 0 < capacity (st_heap ex_state r)) (st_elements ex_state) \<and>
   stats_precondition ex_na (st_heap ex_state) (st_elements ex_state) \<and>
   (\<exists>ds_weight. get_aggr_and_ds_stats ex_na (st_heap ex_state) (st_elements ex_state)
                   = Inr ds_weight) \<and>
   \<not> stats_precondition ex_na_unmatched (st_heap ex_state) (st_elements ex_state) \<and>
   get_aggr_and_ds_stats ex_na_unmatched (st_heap ex_state) (st_elements ex_state)
     = Inl ZeroDivisionError \<and>
   list_all (\<lambda>r. 0 < capacity (st_heap ex_state_empty_ds r)) (st_elements ex_state_empty_ds) \<and>
   \<not> stats_precondition ex_na (st_heap ex_state_empty_ds) (st_elements ex_state_empty_ds) \<and>
   get_aggr_and_ds_stats ex_na (st_heap ex_state_empty_ds) (st_elements ex_state_empty_ds)
     = Inl ZeroDivisionError"
proof -
  have cap: "\<forall>r\<in>set (st_elements ex_state). 0 < capacity (st_heap ex_state r)"
    by (simp add: ex_heap)
  have cap': "\<forall>r\<in>set (st_elements ex_state_empty_ds). 0 < capacity (st_heap ex_state_empty_ds r)"
    by (simp add: ex_heap ex_empty_heap)
  have p1: "stats_precondition ex_na (st_heap ex_state) (st_elements ex_state)"
    by (simp add: stats_precondition_def aggr_precondition_def lun_matched_def
          lun_used_nonzero_def ex_na_def ex_lun_def ex_heap)
  have p2: "\<not> stats_precondition ex_na_unmatched (st_heap ex_state) (st_elements ex_state)"
    by (simp add: stats_precondition_def aggr_precondition_def lun_matched_def
          lun_used_nonzero_def ex_na_unmatched_def ex_lun_def ex_heap)
  have p3: "\<not> stats_precondition ex_na (st_heap ex_state_empty_ds) (st_elements ex_state_empty_ds)"
    by (simp add: stats_precondition_def aggr_precondition_def lun_matched_def
          lun_used_nonzero_def ex_na_def ex_lun_def ex_heap ex_empty_heap)
  from get_aggr_and_ds_stats_total_iff[OF cap, of ex_na] p1
  have r1: "\<exists>ds_weight. get_aggr_and_ds_stats ex_na (st_heap ex_state) (st_elements ex_state)
                   = Inr ds_weight" by simp
  from get_aggr_and_ds_stats_total_iff[OF cap, of ex_na_unmatched] p2
  have r2: "get_aggr_and_ds_stats ex_na_unmatched (st_heap ex_state) (st_elements ex_state)
     = Inl ZeroDivisionError" by simp
  from get_aggr_and_ds_stats_total_iff[OF cap', of ex_na] p3
  have r3: "get_aggr_and_ds_stats ex_na (st_heap ex_state_empty_ds) (st_elements ex_state_empty_ds)
     = Inl ZeroDivisionError" by simp
  from cap cap' p1 p2 p3 r1 r2 r3 show ?thesis by (simp add: list_all_iff)
qed

subsection \<open>The balancing passes\<close>



lemma ex_max_usage_aggr: "get_max_usage_aggr ex_na = Inr (ex_aggr_1, 65)"
  by (simp add: get_max_usage_aggr_def aggr_total_used_def ex_na_def ex_aggr_1_def
        float64_def ilog2_def scale2_def round_half_even_def bit_length.simps Let_def)

lemma ex_aggr_pass:
  "fst (vmfs_aggr_balancing ex_na ex_vms ex_args ex_state) = NoMoreShadowVms"
  "ds_denylist (fst (snd (vmfs_aggr_balancing ex_na ex_vms ex_args ex_state)))
     = Some [''vmfs_vc_a_ssd_bb7_1'', ''vmfs_vc_a_ssd_bb7_1'']"
  "map mv_vm (st_moves (snd (snd (vmfs_aggr_balancing ex_na ex_vms ex_args ex_state))))
     = [''vol1'', ''vol2'']"
  "map mv_source (st_moves (snd (snd (vmfs_aggr_balancing ex_na ex_vms ex_args ex_state))))
     = [''vmfs_vc_a_ssd_bb7_1'', ''vmfs_vc_a_ssd_bb7_1'']"
  "map mv_target (st_moves (snd (snd (vmfs_aggr_balancing ex_na ex_vms ex_args ex_state))))
     = [''vmfs_vc_a_ssd_bb7_3'', ''vmfs_vc_a_ssd_bb7_2'']"
  by (simp_all add: ex_defs model_defs aggr_balancing_loop.simps ds_balancing_loop.simps)

lemma ex_aggr_pass_cap0:
  "fst (vmfs_aggr_balancing ex_na ex_vms (ex_args\<lparr> max_move_vms := 0 \<rparr>) ex_state) = MaxMovesReached"
  "map mv_vm (st_moves (snd (snd (vmfs_aggr_balancing ex_na ex_vms (ex_args\<lparr> max_move_vms := 0 \<rparr>) ex_state))))
     = [''vol1'']"
  by (simp_all add: ex_defs model_defs aggr_balancing_loop.simps ds_balancing_loop.simps)

lemma ex_ds_pass:
  "fst (vmfs_ds_balancing ex_na ex_vms ex_args ex_state) = NoMoreShadowVms"
  "ds_denylist (fst (snd (vmfs_ds_balancing ex_na ex_vms ex_args ex_state)))
     = Some [''vmfs_vc_a_ssd_bb7_1'', ''vmfs_vc_a_ssd_bb7_1'']"
  "st_moves (snd (snd (vmfs_ds_balancing ex_na ex_vms ex_args ex_state)))
     = [\<lparr> mv_vm = ''vol3'', mv_size = 10 * 1024 ^ 3,
          mv_source = ''vmfs_vc_a_ssd_bb7_2'', mv_target = ''vmfs_vc_a_ssd_bb7_3'',
          source_usage_before = 50, source_usage_after = 49,
          target_usage_before = 40, target_usage_after = 41 \<rparr>]"
  by (simp_all add: ex_defs model_defs aggr_balancing_loop.simps ds_balancing_loop.simps)


text \<open>A move changes no name; its record names source and target.\<close>

lemma remove_shadow_vm_name: "remove_shadow_vm ds vm = Inr d \<Longrightarrow> ds_name d = ds_name ds"
  by (auto simp: remove_shadow_vm_def Let_def split: if_splits)

lemma add_shadow_vm_name: "add_shadow_vm ds vm = Inr d \<Longrightarrow> ds_name d = ds_name ds"
  by (auto simp: add_shadow_vm_def Let_def split: if_splits)

lemma move_names:
  assumes "move_shadow_vm_from_ds_to_ds h ds1 ds2 vm = Inr (h', m)"
  shows "ds_name (h' r) = ds_name (h r)"
    and "mv_source m = ds_name (h ds1)" and "mv_target m = ds_name (h ds2)"
proof -
  from assms obtain d1 d2 where r: "remove_shadow_vm (h ds1) vm = Inr d1"
    and a: "add_shadow_vm ((h(ds1 := d1)) ds2) vm = Inr d2" and h': "h' = h(ds1 := d1, ds2 := d2)"
    and s: "mv_source m = ds_name (h' ds1)" and t: "mv_target m = ds_name (h' ds2)"
    by (rule move_Inr)
  have n1: "ds_name d1 = ds_name (h ds1)" using r by (rule remove_shadow_vm_name)
  have n2: "ds_name d2 = ds_name ((h(ds1 := d1)) ds2)" using a by (rule add_shadow_vm_name)
  show names: "ds_name (h' r) = ds_name (h r)" for r using n1 n2 by (simp add: h')
  show "mv_source m = ds_name (h ds1)" using s names by simp
  show "mv_target m = ds_name (h ds2)" using t names by simp
qed

lemma set_sort_by_usage [simp]: "set (sort_by_usage h w els) = set els"
  by (simp add: sort_by_usage_def)

lemma sort_by_usage_Nil_iff [simp]: "sort_by_usage h w els = [] \<longleftrightarrow> els = []"
  by (metis set_sort_by_usage set_empty)

text \<open>The pool-level loop: one move for each run of the body that does not stop.\<close>

lemma aggr_step_Inl:
  assumes "aggr_balancing_step w v a src st = Inl (ex, st')"
  shows "st_moves st' = st_moves st" and "ex \<noteq> MaxMovesReached"
  using assms
  by (auto simp: aggr_balancing_step_def Let_def split: if_splits sum.splits prod.splits)

lemma aggr_step_Inr:
  assumes "aggr_balancing_step w v a src st = Inr (st', vm)"
  obtains m tgt where "st_moves st' = st_moves st @ [m]" "tgt \<in> set (st_elements st)"
    "set (st_elements st') = set (st_elements st)"
    "move_shadow_vm_from_ds_to_ds (st_heap st) src tgt vm = Inr (st_heap st', m)"
proof -
  let ?els = "sort_by_usage (st_heap st) w (st_elements st)"
  from assms have ne: "?els \<noteq> []"
    by (auto simp: aggr_balancing_step_def Let_def split: if_splits)
  then have "last ?els \<in> set ?els" by (rule last_in_set)
  then have tgt: "last ?els \<in> set (st_elements st)" by simp
  from assms ne obtain h' m where
    "move_shadow_vm_from_ds_to_ds (st_heap st) src (last ?els) vm = Inr (h', m)"
    "st' = \<lparr> st_heap = h', st_elements = sort_by_usage h' Map.empty ?els,
             st_moves = st_moves st @ [m] \<rparr>"
    by (auto simp: aggr_balancing_step_def Let_def split: if_splits sum.splits prod.splits)
  with tgt that show thesis by simp
qed

lemma aggr_loop_moves:
  "aggr_balancing_loop w v a sz avg src md ms st = (ex, st') \<Longrightarrow>
     \<exists>new. st_moves st' = st_moves st @ new \<and>
           int (length new) \<le> max 0 (max_move_vms a + 1 - md) \<and>
           (ex = MaxMovesReached \<longrightarrow> int (length new) = max 0 (max_move_vms a + 1 - md))"
proof (induction w v a sz avg src md ms st rule: aggr_balancing_loop.induct)
  case (1 w v a sz avg src md ms st)
  note loop = "1.prems"[unfolded aggr_balancing_loop.simps[of w v a sz avg src md ms st]]
  show ?case
  proof (cases "md > max_move_vms a")
    case True
    with loop show ?thesis by simp
  next
    case le: False
    show ?thesis
    proof (cases "of_int ms > sz \<or> usage (st_heap st src) < avg - 4 * of_int (autopilot_range a)")
      case True
      with loop le show ?thesis by (auto split: if_splits)
    next
      case False
      then have c2: "\<not> of_int ms > sz"
        and c3: "\<not> usage (st_heap st src) < avg - 4 * of_int (autopilot_range a)" by simp_all
      show ?thesis
      proof (cases "aggr_balancing_step w v a src st")
        case (Inl stop)
        obtain ex0 st0 where stop: "stop = (ex0, st0)" by (cases stop)
        with loop le c2 c3 Inl have "ex = ex0" "st' = st0" by simp_all
        with aggr_step_Inl[OF Inl[unfolded stop]] show ?thesis by simp
      next
        case (Inr cont)
        obtain st1 largest where cont: "cont = (st1, largest)" by (cases cont)
        from loop le c2 c3 Inr cont
        have rec: "aggr_balancing_loop w v a sz avg src (md + 1)
                     (ms + get_total_disksize largest) st1 = (ex, st')" by simp
        from "1.IH"[OF le c2 c3 Inr[unfolded cont] refl rec]
        obtain new where n: "st_moves st' = st_moves st1 @ new"
          "int (length new) \<le> max 0 (max_move_vms a + 1 - (md + 1))"
          "ex = MaxMovesReached \<longrightarrow> int (length new) = max 0 (max_move_vms a + 1 - (md + 1))"
          by blast
        from Inr[unfolded cont] obtain m where m: "st_moves st1 = st_moves st @ [m]"
          by (rule aggr_step_Inr)
        have "st_moves st' = st_moves st @ (m # new)" using n(1) m by simp
        moreover have "int (length (m # new)) \<le> max 0 (max_move_vms a + 1 - md)"
          using n(2) le by simp
        moreover have "ex = MaxMovesReached \<longrightarrow>
            int (length (m # new)) = max 0 (max_move_vms a + 1 - md)"
          using n(3) le by auto
        ultimately show ?thesis by blast
      qed
    qed
  qed
qed


text \<open>The source of the pool-level loop is fixed; its targets come from \<open>elements\<close>.\<close>

lemma aggr_loop_targets:
  "aggr_balancing_loop w v a sz avg src md ms st = (ex, st') \<Longrightarrow>
   \<forall>r\<in>set (st_elements st). ds_name (st_heap st r) \<notin> D \<Longrightarrow>
     \<exists>new. st_moves st' = st_moves st @ new \<and>
           (\<forall>m\<in>set new. mv_source m = ds_name (st_heap st src) \<and> mv_target m \<notin> D)"
proof (induction w v a sz avg src md ms st rule: aggr_balancing_loop.induct)
  case (1 w v a sz avg src md ms st)
  note loop = "1.prems"(1)[unfolded aggr_balancing_loop.simps[of w v a sz avg src md ms st]]
  note inv = "1.prems"(2)
  show ?case
  proof (cases "md > max_move_vms a \<or> of_int ms > sz
                 \<or> usage (st_heap st src) < avg - 4 * of_int (autopilot_range a)")
    case True
    with loop have "st' = st" by (auto split: if_splits)
    then show ?thesis by simp
  next
    case False
    then have le: "\<not> md > max_move_vms a" and c2: "\<not> of_int ms > sz"
      and c3: "\<not> usage (st_heap st src) < avg - 4 * of_int (autopilot_range a)" by simp_all
    show ?thesis
    proof (cases "aggr_balancing_step w v a src st")
      case (Inl stop)
      obtain ex0 st0 where stop: "stop = (ex0, st0)" by (cases stop)
      with loop le c2 c3 Inl have "st' = st0" by simp
      with aggr_step_Inl(1)[OF Inl[unfolded stop]] show ?thesis by simp
    next
      case (Inr cont)
      obtain st1 largest where cont: "cont = (st1, largest)" by (cases cont)
      from loop le c2 c3 Inr cont
      have rec: "aggr_balancing_loop w v a sz avg src (md + 1)
                   (ms + get_total_disksize largest) st1 = (ex, st')" by simp
      from Inr[unfolded cont] obtain m tgt where m: "st_moves st1 = st_moves st @ [m]"
        and tgt: "tgt \<in> set (st_elements st)"
        and els: "set (st_elements st1) = set (st_elements st)"
        and mv: "move_shadow_vm_from_ds_to_ds (st_heap st) src tgt largest = Inr (st_heap st1, m)"
        by (rule aggr_step_Inr)
      note names = move_names[OF mv]
      have inv1: "\<forall>r\<in>set (st_elements st1). ds_name (st_heap st1 r) \<notin> D"
        using inv els names(1) by simp
      from "1.IH"[OF le c2 c3 Inr[unfolded cont] refl rec inv1]
      obtain new where n: "st_moves st' = st_moves st1 @ new"
        "\<forall>m\<in>set new. mv_source m = ds_name (st_heap st1 src) \<and> mv_target m \<notin> D"
        by blast
      have "st_moves st' = st_moves st @ (m # new)" using n(1) m by simp
      moreover have "\<forall>m'\<in>set (m # new). mv_source m' = ds_name (st_heap st src) \<and> mv_target m' \<notin> D"
        using n(2) names inv tgt by simp
      ultimately show ?thesis by blast
    qed
  qed
qed

lemma those_Some: "those xs = Some ys \<Longrightarrow> xs = map Some ys"
  by (induction xs arbitrary: ys) (auto split: option.splits)

lemma balancing_source_ds_name:
  assumes "balancing_source_ds h els a mx = Inr src"
  shows "ds_name (h src) \<in> set (map lun_name (luns mx))"
proof -
  let ?ls = "filter (\<lambda>lun. lun_type lun = ''vmfs'' \<and> lun_name_re_match (hdd a) (lun_name lun))
               (luns mx)"
  let ?found = "map (\<lambda>lun. get_by_name h els (lun_name lun)) ?ls"
  from assms obtain rs where th: "those ?found = Some rs"
    and ne: "sort_key (\<lambda>r. usage (h r)) rs \<noteq> []"
    and src: "src = last (sort_key (\<lambda>r. usage (h r)) rs)"
    by (auto simp: balancing_source_ds_def Let_def split: option.splits if_splits)
  from ne src have "src \<in> set (sort_key (\<lambda>r. usage (h r)) rs)" using last_in_set by blast
  then have "Some src \<in> set (map Some rs)" by simp
  with those_Some[OF th] have "Some src \<in> set ?found" by simp
  then obtain lun where "lun \<in> set (luns mx)" "get_by_name h els (lun_name lun) = Some src"
    by auto
  with get_by_name_Some show ?thesis by fastforce
qed

lemma vmfs_ds_not_denied:
  "r \<in> set (vmfs_ds h els dl) \<Longrightarrow> ds_name (h r) \<notin> set dl"
  by (cases "dl = []") (auto simp: vmfs_ds_def)

lemma extend_ds_denylist_args:
  "max_move_vms (snd (extend_ds_denylist a mx)) = max_move_vms a"
  by (simp add: extend_ds_denylist_def Let_def split: option.splits)

lemma extend_ds_denylist_names:
  "set (map lun_name (luns mx)) \<subseteq> set (fst (extend_ds_denylist a mx))"
  by (auto simp: extend_ds_denylist_def Let_def split: option.splits)

text \<open>The ways through \<open>vmfs_aggr_balancing\<close>.\<close>

lemma aggr_required_cases:
  assumes "aggr_balancing_required w mx sz v a st = (ex, a', st')"
  obtains (early) "a' = a" "st_moves st' = st_moves st"
      "ex = NoVmfsDs \<or> (\<exists>e. ex = Raised e)"
  | (loop) src avg st2 where
      "balancing_source_ds (st_heap st) (st_elements st) a mx = Inr src"
      "st_heap st2 = st_heap st" "st_moves st2 = st_moves st"
      "st_elements st2 = vmfs_ds (st_heap st)
         (sort_by_usage (st_heap st) Map.empty (vmfs_ds (st_heap st) (st_elements st) []))
         (fst (extend_ds_denylist a mx))"
      "a' = snd (extend_ds_denylist a mx)"
      "aggr_balancing_loop w v a' sz avg src 0 0 st2 = (ex, st')"
proof (cases "balancing_source_ds (st_heap st) (st_elements st) a mx")
  case (Inl e)
  with assms have "st' = st" "ex = Raised e" "a' = a"
    by (simp_all add: aggr_balancing_required_def)
  then show thesis using early by simp
next
  case (Inr src)
  let ?els1 = "sort_by_usage (st_heap st) Map.empty (vmfs_ds (st_heap st) (st_elements st) [])"
  show thesis
  proof (cases "vmfs_ds (st_heap st) (st_elements st) [] = []")
    case True
    with assms Inr have "st' = st\<lparr> st_elements := ?els1 \<rparr>" "ex = NoVmfsDs" "a' = a"
      by (simp_all add: aggr_balancing_required_def)
    then show thesis using early by simp
  next
    case ne: False
    show thesis
    proof (cases "get_overall_average_usage (st_heap st) ?els1")
      case (Inl e)
      with assms Inr ne have "st' = st\<lparr> st_elements := ?els1 \<rparr>" "ex = Raised e" "a' = a"
        by (simp_all add: aggr_balancing_required_def)
      then show thesis using early by simp
    next
      case avg: (Inr avg_ds)
      let ?st2 = "st\<lparr> st_elements := vmfs_ds (st_heap st) ?els1 (fst (extend_ds_denylist a mx)) \<rparr>"
      from assms Inr ne avg
      have "a' = snd (extend_ds_denylist a mx)"
        and "aggr_balancing_loop w v (snd (extend_ds_denylist a mx)) sz avg_ds src 0 0 ?st2
               = (ex, st')"
        by (auto simp add: aggr_balancing_required_def Let_def split_beta prod_eq_iff)
      then show thesis using loop[of src ?st2 avg_ds] Inr by simp
    qed
  qed
qed

lemma aggr_pass_cases:
  assumes "vmfs_aggr_balancing na v a st = (ex, a', st')"
  obtains (stopped) "a' = a" "st' = st" "ex = ReturnedFalse \<or> (\<exists>e. ex = Raised e)"
  | (required) w mx avg where
      "get_aggr_and_ds_stats na (st_heap st) (st_elements st) = Inr w"
      "get_max_usage_aggr na = Inr (mx, avg)"
      "aggr_balancing_required w mx (size_to_free_on_max_used_aggr mx avg) v a st
         = (ex, a', st')"
proof (cases "get_aggr_and_ds_stats na (st_heap st) (st_elements st)")
  case (Inl e)
  with assms have "st' = st" "ex = Raised e" "a' = a" by (simp_all add: vmfs_aggr_balancing_def)
  then show thesis using stopped by simp
next
  case (Inr w)
  show thesis
  proof (cases "get_max_usage_aggr na")
    case (Inl e)
    with assms Inr have "st' = st" "ex = Raised e" "a' = a"
      by (simp_all add: vmfs_aggr_balancing_def)
    then show thesis using stopped by simp
  next
    case mx: (Inr p)
    obtain mx avg where p: "p = (mx, avg)" by (cases p)
    show thesis
    proof (cases "within_autopilot_range a mx avg")
      case True
      with assms Inr mx p have "st' = st" "ex = ReturnedFalse" "a' = a"
        by (simp_all add: vmfs_aggr_balancing_def)
      then show thesis using stopped by simp
    next
      case False
      with assms Inr mx p show thesis
        using required[of w mx avg] by (simp add: vmfs_aggr_balancing_def)
    qed
  qed
qed

theorem aggr_pass_move_bound:
  "\<exists>ex a' st' new. vmfs_aggr_balancing na_info vm_info a st = (ex, a', st') \<and>
      st_moves st' = st_moves st @ new \<and>
      length new \<le> nat (max_move_vms a + 1) \<and>
      (ex = MaxMovesReached \<longrightarrow> length new = nat (max_move_vms a + 1))"
proof -
  obtain ex a' st' where res: "vmfs_aggr_balancing na_info vm_info a st = (ex, a', st')"
    by (cases "vmfs_aggr_balancing na_info vm_info a st") auto
  have "\<exists>new. st_moves st' = st_moves st @ new \<and> length new \<le> nat (max_move_vms a + 1) \<and>
      (ex = MaxMovesReached \<longrightarrow> length new = nat (max_move_vms a + 1))"
    using res
  proof (cases rule: aggr_pass_cases)
    case stopped
    then show ?thesis by auto
  next
    case (required w mx avg)
    from required(3) show ?thesis
    proof (cases rule: aggr_required_cases)
      case early
      then show ?thesis by auto
    next
      case (loop src avg_ds st2)
      from aggr_loop_moves[OF loop(6)] obtain new where
        n: "st_moves st' = st_moves st2 @ new"
           "int (length new) \<le> max 0 (max_move_vms a' + 1 - 0)"
           "ex = MaxMovesReached \<longrightarrow> int (length new) = max 0 (max_move_vms a' + 1 - 0)"
        by blast
      have a': "max_move_vms a' = max_move_vms a"
        using loop(5) by (simp add: extend_ds_denylist_args)
      have "st_moves st' = st_moves st @ new" using n(1) loop(3) by simp
      moreover have "length new \<le> nat (max_move_vms a + 1)" using n(2) a' by simp
      moreover have "ex = MaxMovesReached \<longrightarrow> length new = nat (max_move_vms a + 1)"
        using n(3) a' by auto
      ultimately show ?thesis by blast
    qed
  qed
  with res show ?thesis by blast
qed

text \<open>C7, witness: with a cap of 0 the pass on the concrete inventory moves one unit and
  stops on the cap.\<close>

theorem aggr_pass_move_bound_witness:
  "fst (vmfs_aggr_balancing ex_na ex_vms (ex_args\<lparr> max_move_vms := 0 \<rparr>) ex_state)
     = MaxMovesReached \<and>
   length (st_moves (snd (snd (vmfs_aggr_balancing ex_na ex_vms
                                  (ex_args\<lparr> max_move_vms := 0 \<rparr>) ex_state)))) = 1"
proof -
  from aggr_pass_move_bound[of ex_na ex_vms "ex_args\<lparr> max_move_vms := 0 \<rparr>" ex_state]
  obtain ex a' st' new where
    r: "vmfs_aggr_balancing ex_na ex_vms (ex_args\<lparr> max_move_vms := 0 \<rparr>) ex_state = (ex, a', st')"
    and m: "st_moves st' = st_moves ex_state @ new"
    and b: "ex = MaxMovesReached \<longrightarrow> length new = nat (max_move_vms (ex_args\<lparr> max_move_vms := 0 \<rparr>) + 1)"
    by blast
  from ex_aggr_pass_cap0(1) r have e: "ex = MaxMovesReached" by simp
  with b have "length new = 1" by simp
  with m r e show ?thesis by (simp add: ex_heap)
qed

text \<open>
  C3 (as amended). In a pool-level pass the \<^emph>\<open>target\<close> of every move is neither on the
  configured deny list nor on the derived one (the configured list extended with the
  names of the LUNs of the most used aggregate); the source of every move is a datastore
  of the most used aggregate and so always on the derived list.
\<close>

theorem aggr_target_not_denied:
  assumes "get_max_usage_aggr na_info = Inr (mx, avg)"
    and "vmfs_aggr_balancing na_info vm_info a st = (ex, a', st')"
    and "st_moves st' = st_moves st @ new"
    and "m \<in> set new"
  shows "mv_target m \<notin> set (fst (extend_ds_denylist a mx)) \<and>
         mv_source m \<in> set (map lun_name (luns mx)) \<and>
         mv_source m \<in> set (fst (extend_ds_denylist a mx))"
  using assms(2)
proof (cases rule: aggr_pass_cases)
  case stopped
  with assms(3,4) show ?thesis by simp
next
  case (required w mx' avg')
  with assms(1) have mx: "mx' = mx" by simp
  from required(3) show ?thesis
  proof (cases rule: aggr_required_cases)
    case early
    with assms(3,4) show ?thesis by simp
  next
    case (loop src avg_ds st2)
    let ?D = "set (fst (extend_ds_denylist a mx))"
    have inv: "\<forall>r\<in>set (st_elements st2). ds_name (st_heap st2 r) \<notin> ?D"
      using loop(2,4) vmfs_ds_not_denied mx by auto
    from aggr_loop_targets[OF loop(6) inv] obtain new' where
      n: "st_moves st' = st_moves st2 @ new'"
         "\<forall>m\<in>set new'. mv_source m = ds_name (st_heap st2 src) \<and> mv_target m \<notin> ?D"
      by blast
    from n(1) loop(3) assms(3) have "new' = new" by simp
    with n(2) assms(4) have s: "mv_source m = ds_name (st_heap st src)"
      and t: "mv_target m \<notin> ?D" using loop(2) by auto
    from balancing_source_ds_name[OF loop(1)] s mx
    have "mv_source m \<in> set (map lun_name (luns mx))" by simp
    with t extend_ds_denylist_names[of mx a] show ?thesis by blast
  qed
qed


text \<open>The derived deny list of the concrete inventory.\<close>

lemma ex_extended_denylist:
  "fst (extend_ds_denylist ex_args ex_aggr_1)
     = [''vmfs_vc_a_ssd_bb7_1'', ''vmfs_vc_a_ssd_bb7_1'']"
  by (simp add: extend_ds_denylist_def Let_def ex_args_def ex_aggr_1_def ex_lun_def)

text \<open>C3, witness: the first move of the pass on the concrete inventory.\<close>

theorem aggr_target_not_denied_witness:
  "get_max_usage_aggr ex_na = Inr (ex_aggr_1, 65) \<and>
   st_moves (snd (snd (vmfs_aggr_balancing ex_na ex_vms ex_args ex_state))) \<noteq> [] \<and>
   fst (extend_ds_denylist ex_args ex_aggr_1)
     = [''vmfs_vc_a_ssd_bb7_1'', ''vmfs_vc_a_ssd_bb7_1''] \<and>
   mv_target (hd (st_moves (snd (snd (vmfs_aggr_balancing ex_na ex_vms ex_args ex_state)))))
     = ''vmfs_vc_a_ssd_bb7_3'' \<and>
   mv_target (hd (st_moves (snd (snd (vmfs_aggr_balancing ex_na ex_vms ex_args ex_state)))))
     \<notin> set (fst (extend_ds_denylist ex_args ex_aggr_1)) \<and>
   mv_source (hd (st_moves (snd (snd (vmfs_aggr_balancing ex_na ex_vms ex_args ex_state)))))
     \<in> set (map lun_name (luns ex_aggr_1))"
proof -
  obtain ex a' st' where r: "vmfs_aggr_balancing ex_na ex_vms ex_args ex_state = (ex, a', st')"
    by (cases "vmfs_aggr_balancing ex_na ex_vms ex_args ex_state") auto
  from ex_aggr_pass(3,5) r have ne: "st_moves st' \<noteq> []"
    and t: "mv_target (hd (st_moves st')) = ''vmfs_vc_a_ssd_bb7_3''" by auto
  have app: "st_moves st' = st_moves ex_state @ st_moves st'" by (simp add: ex_heap)
  from ne have mem: "hd (st_moves st') \<in> set (st_moves st')" by simp
  note dl = ex_extended_denylist
  note T = aggr_target_not_denied[OF ex_max_usage_aggr r app mem]
  show ?thesis unfolding r snd_conv fst_conv
    using T ne t dl ex_max_usage_aggr by blast
qed

text \<open>
  C3, counterexample: the pass on the concrete inventory logs two moves, and the source of
  both is the datastore that is on the configured deny list and on the derived one.
\<close>

theorem aggr_source_denied_counterexample:
  "ds_denylist ex_args = Some [''vmfs_vc_a_ssd_bb7_1''] \<and>
   get_max_usage_aggr ex_na = Inr (ex_aggr_1, 65) \<and>
   fst (extend_ds_denylist ex_args ex_aggr_1)
     = [''vmfs_vc_a_ssd_bb7_1'', ''vmfs_vc_a_ssd_bb7_1''] \<and>
   map mv_source (st_moves (snd (snd (vmfs_aggr_balancing ex_na ex_vms ex_args ex_state))))
     = [''vmfs_vc_a_ssd_bb7_1'', ''vmfs_vc_a_ssd_bb7_1'']"
proof -
  have "ds_denylist ex_args = Some [''vmfs_vc_a_ssd_bb7_1'']"
    by (simp add: ex_args_def)
  then show ?thesis using ex_extended_denylist ex_max_usage_aggr ex_aggr_pass(4) by simp
qed







text \<open>The deny list after a pass.\<close>

lemma extend_ds_denylist_Some:
  "ds_denylist a = Some l \<Longrightarrow> l \<noteq> [] \<Longrightarrow>
     ds_denylist (snd (extend_ds_denylist a mx)) = Some (l @ map lun_name (luns mx))"
  by (simp add: extend_ds_denylist_def Let_def)

lemma ds_pass_cases:
  assumes "vmfs_ds_balancing na v a st = (ex, a', st')"
  obtains (early) "a' = a" "st_moves st' = st_moves st" "ex = NoVmfsDs \<or> (\<exists>e. ex = Raised e)"
  | (loop) w mx avg st2 where
      "get_aggr_and_ds_stats na (st_heap st) (st_elements st) = Inr w"
      "get_max_usage_aggr na = Inr (mx, avg)"
      "st_heap st2 = st_heap st" "st_moves st2 = st_moves st"
      "st_elements st2 = vmfs_ds (st_heap st)
         (sort_by_usage (st_heap st) Map.empty (vmfs_ds (st_heap st) (st_elements st) []))
         (fst (extend_ds_denylist a mx))"
      "a' = snd (extend_ds_denylist a mx)"
      "ds_balancing_loop w v a' 0 st2 = (ex, st')"
proof (cases "get_aggr_and_ds_stats na (st_heap st) (st_elements st)")
  case (Inl e)
  with assms have "st' = st" "ex = Raised e" "a' = a" by (simp_all add: vmfs_ds_balancing_def)
  then show thesis using early by simp
next
  case (Inr w)
  show thesis
  proof (cases "get_max_usage_aggr na")
    case (Inl e)
    with assms Inr have "st' = st" "ex = Raised e" "a' = a"
      by (simp_all add: vmfs_ds_balancing_def)
    then show thesis using early by simp
  next
    case mx: (Inr p)
    obtain mx avg where p: "p = (mx, avg)" by (cases p)
    let ?els1 = "sort_by_usage (st_heap st) Map.empty (vmfs_ds (st_heap st) (st_elements st) [])"
    show thesis
    proof (cases "vmfs_ds (st_heap st) (st_elements st) [] = []")
      case True
      with assms Inr mx p have "st' = st\<lparr> st_elements := ?els1 \<rparr>" "ex = NoVmfsDs" "a' = a"
        by (simp_all add: vmfs_ds_balancing_def)
      then show thesis using early by simp
    next
      case ne: False
      show thesis
      proof (cases "get_overall_average_usage (st_heap st) ?els1")
        case (Inl e)
        with assms Inr mx p ne have "st' = st\<lparr> st_elements := ?els1 \<rparr>" "ex = Raised e" "a' = a"
          by (simp_all add: vmfs_ds_balancing_def)
        then show thesis using early by simp
      next
        case avg: (Inr avg_ds)
        let ?st2 = "st\<lparr> st_elements := vmfs_ds (st_heap st) ?els1 (fst (extend_ds_denylist a mx)) \<rparr>"
        from assms Inr mx p ne avg
        have "a' = snd (extend_ds_denylist a mx)"
          and "ds_balancing_loop w v (snd (extend_ds_denylist a mx)) 0 ?st2 = (ex, st')"
          by (auto simp add: vmfs_ds_balancing_def Let_def split_beta prod_eq_iff)
        then show thesis using loop[of w mx avg ?st2] Inr mx p by simp
      qed
    qed
  qed
qed

lemma aggr_pass_denylist:
  assumes "ds_denylist a = Some l" "l \<noteq> []" "get_max_usage_aggr na = Inr (mx, avg)"
    and "vmfs_aggr_balancing na v a st = (ex, a', st')"
    and "ex \<in> aggr_loop_exits"
  shows "ds_denylist a' = Some (l @ map lun_name (luns mx))"
  using assms(4)
proof (cases rule: aggr_pass_cases)
  case stopped
  with assms(5) show ?thesis by (auto simp: aggr_loop_exits_def)
next
  case (required w mx' avg')
  with assms(3) have mx: "mx' = mx" by simp
  from required(3) show ?thesis
  proof (cases rule: aggr_required_cases)
    case early
    with assms(5) show ?thesis by (auto simp: aggr_loop_exits_def)
  next
    case (loop src avg_ds st2)
    with mx extend_ds_denylist_Some[OF assms(1,2)] show ?thesis by simp
  qed
qed


lemma ds_pass_denylist:
  assumes "ds_denylist a = Some l" "l \<noteq> []" "get_max_usage_aggr na = Inr (mx, avg)"
    and "vmfs_ds_balancing na v a st = (ex, a', st')"
    and "ex \<in> ds_loop_exits"
  shows "ds_denylist a' = Some (l @ map lun_name (luns mx))"
  using assms(4)
proof (cases rule: ds_pass_cases)
  case early
  with assms(5) show ?thesis by (auto simp: ds_loop_exits_def)
next
  case (loop w mx' avg' st2)
  with assms(3) have "mx' = mx" by simp
  with loop(6) extend_ds_denylist_Some[OF assms(1,2)] show ?thesis by simp
qed

text \<open>
  C9. With a non-empty configured deny list \<open>l\<close>: a pool-level pass that ends by a \<open>break\<close>
  of its loop leaves \<open>args.ds_denylist\<close> as \<open>l\<close> followed by the LUN names of the most used
  aggregate; so does a datastore-level pass; and after one run of the body of
  \<open>check_loop\<close> in which both passes end so, the list is \<open>l\<close> followed by the LUN names of
  the most used aggregate of the first inventory and those of the second.
\<close>

theorem ds_denylist_extended_in_place:
  assumes "ds_denylist a = Some l" and "l \<noteq> []"
  shows "(get_max_usage_aggr na_info = Inr (mx, avg) \<and>
          vmfs_aggr_balancing na_info vm_info a st = (ex, a', st') \<and> ex \<in> aggr_loop_exits
            \<longrightarrow> ds_denylist a' = Some (l @ map lun_name (luns mx))) \<and>
         (get_max_usage_aggr na_info = Inr (mx, avg) \<and>
          vmfs_ds_balancing na_info vm_info a st = (exd, ad, std) \<and> exd \<in> ds_loop_exits
            \<longrightarrow> ds_denylist ad = Some (l @ map lun_name (luns mx))) \<and>
         (get_max_usage_aggr na_info = Inr (mx, avg) \<and>
          get_max_usage_aggr na_info2 = Inr (mx2, avg2) \<and>
          check_loop_run na_info vm_info st na_info2 vm_info2 st2 a = (ex1, ex2, a2) \<and>
          ex1 \<in> aggr_loop_exits \<and> ex2 \<in> ds_loop_exits
            \<longrightarrow> ds_denylist a2
                  = Some (l @ map lun_name (luns mx) @ map lun_name (luns mx2)))"
proof (intro conjI impI)
  assume "get_max_usage_aggr na_info = Inr (mx, avg) \<and>
          vmfs_aggr_balancing na_info vm_info a st = (ex, a', st') \<and> ex \<in> aggr_loop_exits"
  then show "ds_denylist a' = Some (l @ map lun_name (luns mx))"
    using aggr_pass_denylist[OF assms] by blast
next
  assume "get_max_usage_aggr na_info = Inr (mx, avg) \<and>
          vmfs_ds_balancing na_info vm_info a st = (exd, ad, std) \<and> exd \<in> ds_loop_exits"
  then show "ds_denylist ad = Some (l @ map lun_name (luns mx))"
    using ds_pass_denylist[OF assms] by blast
next
  assume h: "get_max_usage_aggr na_info = Inr (mx, avg) \<and>
          get_max_usage_aggr na_info2 = Inr (mx2, avg2) \<and>
          check_loop_run na_info vm_info st na_info2 vm_info2 st2 a = (ex1, ex2, a2) \<and>
          ex1 \<in> aggr_loop_exits \<and> ex2 \<in> ds_loop_exits"
  obtain a1 s1 where p1: "vmfs_aggr_balancing na_info vm_info a st = (ex1, a1, s1)"
    and p2: "\<exists>s2. vmfs_ds_balancing na_info2 vm_info2 a1 st2 = (ex2, a2, s2)"
    using h by (auto simp: check_loop_run_def Let_def split: prod.splits)
  from p2 obtain s2 where p2': "vmfs_ds_balancing na_info2 vm_info2 a1 st2 = (ex2, a2, s2)"
    by blast
  from h have m1: "get_max_usage_aggr na_info = Inr (mx, avg)"
    and m2: "get_max_usage_aggr na_info2 = Inr (mx2, avg2)"
    and e1: "ex1 \<in> aggr_loop_exits" and e2: "ex2 \<in> ds_loop_exits" by simp_all
  have l1: "ds_denylist a1 = Some (l @ map lun_name (luns mx))"
    by (rule aggr_pass_denylist[OF assms m1 p1 e1])
  have ne: "l @ map lun_name (luns mx) \<noteq> []" using assms(2) by simp
  from ds_pass_denylist[OF l1 ne m2 p2' e2]
  show "ds_denylist a2 = Some (l @ map lun_name (luns mx) @ map lun_name (luns mx2))"
    by simp
qed

text \<open>One run of the body of \<open>check_loop\<close> on the concrete inventory.\<close>

lemma ex_check_loop_run:
  "check_loop_run ex_na ex_vms ex_state ex_na ex_vms ex_state ex_args =
     (NoMoreShadowVms, NoMoreShadowVms,
      ex_args\<lparr> ds_denylist := Some [''vmfs_vc_a_ssd_bb7_1'', ''vmfs_vc_a_ssd_bb7_1'',
                                      ''vmfs_vc_a_ssd_bb7_1''] \<rparr>)"
  by (simp add: check_loop_run_def ex_defs model_defs aggr_balancing_loop.simps
        ds_balancing_loop.simps)

text \<open>C9, witness: the configured list of one name has two names after either pass and
  three after one run of the body of \<open>check_loop\<close>.\<close>

theorem ds_denylist_extended_in_place_witness:
  "ds_denylist ex_args = Some [''vmfs_vc_a_ssd_bb7_1''] \<and>
   get_max_usage_aggr ex_na = Inr (ex_aggr_1, 65) \<and>
   map lun_name (luns ex_aggr_1) = [''vmfs_vc_a_ssd_bb7_1''] \<and>
   fst (vmfs_aggr_balancing ex_na ex_vms ex_args ex_state) = NoMoreShadowVms \<and>
   ds_denylist (fst (snd (vmfs_aggr_balancing ex_na ex_vms ex_args ex_state)))
     = Some [''vmfs_vc_a_ssd_bb7_1'', ''vmfs_vc_a_ssd_bb7_1''] \<and>
   fst (vmfs_ds_balancing ex_na ex_vms ex_args ex_state) = NoMoreShadowVms \<and>
   ds_denylist (fst (snd (vmfs_ds_balancing ex_na ex_vms ex_args ex_state)))
     = Some [''vmfs_vc_a_ssd_bb7_1'', ''vmfs_vc_a_ssd_bb7_1''] \<and>
   ds_denylist (snd (snd (check_loop_run ex_na ex_vms ex_state ex_na ex_vms ex_state ex_args)))
     = Some [''vmfs_vc_a_ssd_bb7_1'', ''vmfs_vc_a_ssd_bb7_1'', ''vmfs_vc_a_ssd_bb7_1'']"
proof -
  have l: "ds_denylist ex_args = Some [''vmfs_vc_a_ssd_bb7_1'']" by (simp add: ex_args_def)
  have ne: "[''vmfs_vc_a_ssd_bb7_1''] \<noteq> []" by simp
  have names: "map lun_name (luns ex_aggr_1) = [''vmfs_vc_a_ssd_bb7_1'']"
    by (simp add: ex_aggr_1_def ex_lun_def)
  obtain ex a' st' where r1: "vmfs_aggr_balancing ex_na ex_vms ex_args ex_state = (ex, a', st')"
    by (cases "vmfs_aggr_balancing ex_na ex_vms ex_args ex_state") auto
  obtain exd ad std where r2: "vmfs_ds_balancing ex_na ex_vms ex_args ex_state = (exd, ad, std)"
    by (cases "vmfs_ds_balancing ex_na ex_vms ex_args ex_state") auto
  obtain ex1 ex2 a2 where
    r3: "check_loop_run ex_na ex_vms ex_state ex_na ex_vms ex_state ex_args = (ex1, ex2, a2)"
    by (cases "check_loop_run ex_na ex_vms ex_state ex_na ex_vms ex_state ex_args") auto
  have e1: "ex = NoMoreShadowVms" using ex_aggr_pass(1) r1 by simp
  have e2: "exd = NoMoreShadowVms" using ex_ds_pass(1) r2 by simp
  have e3: "ex1 = NoMoreShadowVms" "ex2 = NoMoreShadowVms" using ex_check_loop_run r3 by simp_all
  note T = ds_denylist_extended_in_place[OF l ne, of ex_na ex_aggr_1 65 ex_vms ex_state
      ex a' st' exd ad std ex_na ex_aggr_1 65 ex_vms ex_state ex1 ex2 a2]
  from T r1 e1 ex_max_usage_aggr have c1: "ds_denylist a' = Some ([''vmfs_vc_a_ssd_bb7_1''] @ map lun_name (luns ex_aggr_1))"
    by (simp add: aggr_loop_exits_def)
  from T r2 e2 ex_max_usage_aggr have c2: "ds_denylist ad = Some ([''vmfs_vc_a_ssd_bb7_1''] @ map lun_name (luns ex_aggr_1))"
    by (simp add: ds_loop_exits_def)
  from T r3 e3 ex_max_usage_aggr have c3: "ds_denylist a2 = Some ([''vmfs_vc_a_ssd_bb7_1''] @ map lun_name (luns ex_aggr_1) @ map lun_name (luns ex_aggr_1))"
    by (simp add: aggr_loop_exits_def ds_loop_exits_def)
  show ?thesis unfolding r1 r2 r3 snd_conv fst_conv
    using l ex_max_usage_aggr names e1 e2 c1 c2 c3 by simp
qed

text \<open>
  C2, at the failing input: fixed corridor from 30 to 95 percent, the three datastores at
  90, 50 and 40 percent, all inside. \<open>sanity_checks\<close> would stop the loop; the pass moves the
  10 GiB unit from the datastore at 50 percent to the one at 40 percent and then ends with
  the warning that no unit is left.
\<close>

theorem ds_balancing_ignores_corridor:
  "usage_corridor ex_args 60 = (30, 95) \<and>
   get_overall_average_usage (st_heap ex_state) (st_elements ex_state) = Inr 60 \<and>
   usage (st_heap ex_state 0) = 90 \<and> usage (st_heap ex_state 1) = 50 \<and>
   usage (st_heap ex_state 2) = 40 \<and>
   sanity_checks (st_heap ex_state 2) (st_heap ex_state 1) 30 95
     (min_freespace ex_args) (min_max_difference ex_args) = False \<and>
   fst (vmfs_ds_balancing ex_na ex_vms ex_args ex_state) = NoMoreShadowVms \<and>
   st_moves (snd (snd (vmfs_ds_balancing ex_na ex_vms ex_args ex_state)))
     = [\<lparr> mv_vm = ''vol3'', mv_size = 10 * 1024 ^ 3,
          mv_source = ''vmfs_vc_a_ssd_bb7_2'', mv_target = ''vmfs_vc_a_ssd_bb7_3'',
          source_usage_before = 50, source_usage_after = 49,
          target_usage_before = 40, target_usage_after = 41 \<rparr>]"
proof -
  have "usage_corridor ex_args 60 = (30, 95)" by (simp add: usage_corridor_def ex_args_def)
  moreover have "get_overall_average_usage (st_heap ex_state) (st_elements ex_state) = Inr 60"
    by (simp add: get_overall_average_usage_def get_overall_capacity_def
          get_overall_freespace_def ex_heap)
  moreover have "sanity_checks (st_heap ex_state 2) (st_heap ex_state 1) 30 95
     (min_freespace ex_args) (min_max_difference ex_args) = False"
    by (simp add: sanity_checks_def is_below_usage_def ex_heap)
  ultimately show ?thesis using ex_ds_pass(1,3) by (simp add: ex_heap)
qed

end
